theory Spec2Isabelle
  imports Complex_Main
begin

section \<open>The audio worklet processor of the sampler\<close>

text \<open>
  The embedding follows the class \<open>MainProcessor\<close> (the second document of
  \<open>src/src/main.ts\<close>): its message handler, \<open>updateTiming\<close>, \<open>triggerVoice\<close>,
  \<open>triggerMetronome\<close> and \<open>process\<close>.

  Conventions of the model.
  \<^item> A JavaScript number stored in an audio buffer is a \<open>jsnum\<close>: a real, or \<open>NaN\<close>.
    \<open>NaN\<close> is what a read past the end of a \<open>Float32Array\<close> becomes once it is
    multiplied (\<open>undefined * gain\<close>). Rounding to 32 or 64 bit floats and the infinities
    are not modelled: arithmetic on the reals is exact.
  \<^item> The clock fields (\<open>bpm\<close>, \<open>samplesPerBeat\<close>, the two countdowns) are reals. The
    quotient of \<open>updateTiming\<close> is the real quotient; JavaScript yields an infinity or
    \<open>NaN\<close> for \<open>bpm = 0\<close>, so statements about the value of the quotient assume
    \<open>bpm \<noteq> 0\<close>.
  \<^item> \<open>sampleRate\<close> is a global of the worklet scope (\<open>declare const sampleRate\<close>); it
    is a parameter \<open>sr\<close> of every function that reads it.
  \<^item> Messages posted on the port are returned as a list, in posting order.
  \<^item> Pad identifiers are strings of 8-bit characters.
\<close>

subsection \<open>Numbers and typed arrays\<close>

datatype jsnum = Num real | NaN

text \<open>\<open>a + b\<close> on buffer values.\<close>

fun jadd :: "jsnum \<Rightarrow> jsnum \<Rightarrow> jsnum" where
  "jadd (Num a) (Num b) = Num (a + b)"
| "jadd (Num a) NaN = NaN"
| "jadd NaN b = NaN"

text \<open>\<open>sampleValue * voice.gain\<close>: the gain is a real, the sample value may be \<open>NaN\<close>.\<close>

fun jscale :: "jsnum \<Rightarrow> real \<Rightarrow> jsnum" where
  "jscale (Num a) g = Num (a * g)"
| "jscale NaN g = NaN"

text \<open>
  \<open>arr[i]\<close> on a \<open>Float32Array\<close>, read as an operand of a multiplication: out of range
  the read is \<open>undefined\<close>, which the multiplication converts to \<open>NaN\<close>.
\<close>

definition typedGet :: "jsnum list \<Rightarrow> nat \<Rightarrow> jsnum" where
  "typedGet arr i = (if i < length arr then arr ! i else NaN)"

text \<open>\<open>arr[i] += x\<close> on a \<open>Float32Array\<close>: a write past the end is dropped.\<close>

definition typedAdd :: "jsnum list \<Rightarrow> nat \<Rightarrow> jsnum \<Rightarrow> jsnum list" where
  "typedAdd arr i x = (if i < length arr then arr[i := jadd (arr ! i) x] else arr)"

text \<open>
  \<open>for (ch = ch0; ch < mixOutput.length; ch++) mixOutput[ch][i] += f(ch)\<close>: the list is
  the channels from \<open>ch0\<close> on.
\<close>

fun addFrame :: "(nat \<Rightarrow> jsnum) \<Rightarrow> nat \<Rightarrow> nat \<Rightarrow> jsnum list list \<Rightarrow> jsnum list list" where
  "addFrame f i ch [] = []"
| "addFrame f i ch (c # cs) = typedAdd c i (f ch) # addFrame f i (Suc ch) cs"

subsection \<open>Pad identifiers\<close>

text \<open>
  \<open>s.replace(pat, rep)\<close> with a string pattern: the first occurrence of \<open>pat\<close> is
  replaced (\<open>rep\<close> without \<open>$\<close> patterns).
\<close>

fun replaceFirst :: "string \<Rightarrow> string \<Rightarrow> string \<Rightarrow> string" where
  "replaceFirst pat rep [] = (if pat = [] then rep else [])"
| "replaceFirst pat rep (c # cs) =
     (if take (length pat) (c # cs) = pat then rep @ drop (length pat) (c # cs)
      else c # replaceFirst pat rep cs)"

text \<open>
  The white space that \<open>parseInt\<close> skips, among 8-bit characters: TAB, LF, VT, FF, CR,
  SP and NBSP.
\<close>

definition isWhiteSpace :: "char \<Rightarrow> bool" where
  "isWhiteSpace c = (c \<in> set [CHR 0x09, CHR 0x0A, CHR 0x0B, CHR 0x0C, CHR 0x0D, CHR 0x20, CHR 0xA0])"

definition isDigit :: "char \<Rightarrow> bool" where
  "isDigit c = (c \<in> set ''0123456789'')"

definition digitVal :: "char \<Rightarrow> nat" where
  "digitVal c = of_char c - 48"

definition digitsValue :: "string \<Rightarrow> nat" where
  "digitsValue ds = foldl (\<lambda>a c. 10 * a + digitVal c) 0 ds"

text \<open>
  \<open>parseInt(s, 10)\<close>: leading white space is skipped, one sign is read, then the longest
  run of decimal digits; no digit gives \<open>NaN\<close> (\<open>None\<close>); what follows the digits is
  ignored.
\<close>

definition parseInt :: "string \<Rightarrow> int option" where
  "parseInt s =
     (let t = dropWhile isWhiteSpace s;
          neg = (t \<noteq> [] \<and> hd t = CHR ''-'');
          u = (if t \<noteq> [] \<and> (hd t = CHR ''-'' \<or> hd t = CHR ''+'') then tl t else t);
          ds = takeWhile isDigit u
      in if ds = [] then None
         else Some (if neg then - int (digitsValue ds) else int (digitsValue ds)))"

text \<open>
  The slot computation of \<open>triggerVoice\<close>:
  \<open>padNum = parseInt(id.replace('pad', ''), 10)\<close>, slot \<open>padNum - 1\<close> when
  \<open>!isNaN(padNum) && padNum >= 1 && padNum <= 16\<close>, else 0.
\<close>

definition padSlot :: "string \<Rightarrow> nat" where
  "padSlot ident =
     (case parseInt (replaceFirst ''pad'' [] ident) of
        None \<Rightarrow> 0
      | Some padNum \<Rightarrow> (if padNum \<ge> 1 \<and> padNum \<le> 16 then nat (padNum - 1) else 0))"

text \<open>
  The identifiers the application gives its pads (\<open>PAD_CONFIG\<close> of \<open>main.ts\<close>):
  \<open>`pad${padNum}`\<close>, the decimal numeral of the pad number after \<open>pad\<close>.
\<close>

definition digitChar :: "nat \<Rightarrow> char" where
  "digitChar d = ''0123456789'' ! d"

fun toDecimal :: "nat \<Rightarrow> string" where
  "toDecimal n = (if n < 10 then [digitChar n] else toDecimal (n div 10) @ [digitChar (n mod 10)])"

declare toDecimal.simps [simp del]

definition padId :: "nat \<Rightarrow> string" where
  "padId padNum = ''pad'' @ toDecimal padNum"

subsection \<open>State\<close>

record SampleVoice =
  sampleId :: string
  bufferIndex :: nat
  isPlaying :: bool
  gain :: real
  visSlot :: nat

record MainProcessor =
  phase :: real
  isTonePlaying :: bool
  sampleBuffers :: "string \<rightharpoonup> jsnum list list"
  activeVoices :: "SampleVoice list"
  isMetronomeEnabled :: bool
  bpm :: real
  metronomePhase :: real
  currentBeat :: nat
  clickFreq :: real
  clickAmp :: real
  nextClickCountdown :: real
  samplesPerBeat :: real
  ticksUntilNextClock :: real
  chokeGroups :: "string \<rightharpoonup> int"

text \<open>The payload of a \<open>LOG\<close> message the processor posts, by its three templates.\<close>

datatype LogLine =
  Loaded string nat nat
| BpmSet real
| ChokeGroupSet int string

text \<open>What the processor posts on its port.\<close>

datatype Posted = LOG_OUT LogLine | BEAT nat | CLOCK_TICK

text \<open>The two clock messages, told apart from the rest.\<close>

definition isTick :: "Posted \<Rightarrow> bool" where
  "isTick e = (e = CLOCK_TICK)"

fun isBeat :: "Posted \<Rightarrow> bool" where
  "isBeat (BEAT k) = True"
| "isBeat (LOG_OUT l) = False"
| "isBeat CLOCK_TICK = False"

text \<open>
  \<open>AudioMessage\<close>, the messages the processor receives. The velocity of \<open>PLAY_SAMPLE\<close>
  may be absent (\<open>undefined\<close>); \<open>triggerVoice\<close> then takes its default.
\<close>

datatype AudioMessage =
  TOGGLE_TONE bool
| LOAD_SAMPLE string "jsnum list list"
| PLAY_SAMPLE string "real option"
| SET_BPM real
| TOGGLE_METRONOME bool
| LOG string
| SET_CHOKE_GROUP string int

datatype error = TypeError

subsection \<open>Commands\<close>

definition updateTiming :: "real \<Rightarrow> MainProcessor \<Rightarrow> MainProcessor" where
  "updateTiming sr s = s\<lparr>samplesPerBeat := (sr * 60) / bpm s\<rparr>"

text \<open>The field initialisers, then \<open>updateTiming\<close>, as the constructor runs them.\<close>

definition constructor :: "real \<Rightarrow> MainProcessor" where
  "constructor sr = updateTiming sr
     \<lparr>phase = 0, isTonePlaying = False, sampleBuffers = Map.empty, activeVoices = [],
      isMetronomeEnabled = False, bpm = 120, metronomePhase = 0, currentBeat = 0,
      clickFreq = 0.1, clickAmp = 0.3, nextClickCountdown = 0, samplesPerBeat = 0,
      ticksUntilNextClock = 0, chokeGroups = Map.empty\<rparr>"

text \<open>The body of the choke loop for one voice of \<open>activeVoices\<close>.\<close>

definition chokeVoice :: "(string \<rightharpoonup> int) \<Rightarrow> int \<Rightarrow> SampleVoice \<Rightarrow> SampleVoice" where
  "chokeVoice groups g voice =
     (if isPlaying voice \<and> groups (sampleId voice) = Some g then voice\<lparr>isPlaying := False\<rparr>
      else voice)"

definition triggerVoice :: "string \<Rightarrow> real \<Rightarrow> MainProcessor \<Rightarrow> MainProcessor" where
  "triggerVoice ident velocity s =
     (if sampleBuffers s ident \<noteq> None then
        (let voices = (case chokeGroups s ident of
                         None \<Rightarrow> activeVoices s
                       | Some g \<Rightarrow> map (chokeVoice (chokeGroups s) g) (activeVoices s));
             slot = padSlot ident
         in s\<lparr>activeVoices := voices @
               [\<lparr>sampleId = ident, bufferIndex = 0, isPlaying = True, gain = velocity,
                 visSlot = slot\<rparr>]\<rparr>)
      else s)"

text \<open>
  \<open>port.onmessage\<close>: the new state, the messages posted, and the exception the handler
  ends with, if any. \<open>LOAD_SAMPLE\<close> stores the buffers and then reads
  \<open>buffers[0].length\<close> for its log line, which throws when there is no channel.
  A \<open>LOG\<close> message has no branch.
\<close>

fun onmessage :: "real \<Rightarrow> AudioMessage \<Rightarrow> MainProcessor \<Rightarrow> MainProcessor \<times> Posted list \<times> error option" where
  "onmessage sr (TOGGLE_TONE b) s = (s\<lparr>isTonePlaying := b\<rparr>, [], None)"
| "onmessage sr (LOAD_SAMPLE ident buffers) s =
     (let s' = s\<lparr>sampleBuffers := (sampleBuffers s)(ident \<mapsto> buffers)\<rparr>
      in case buffers of
           [] \<Rightarrow> (s', [], Some TypeError)
         | b0 # _ \<Rightarrow> (s', [LOG_OUT (Loaded ident (length buffers) (length b0))], None))"
| "onmessage sr (PLAY_SAMPLE ident velocity) s =
     (triggerVoice ident (case velocity of None \<Rightarrow> 1 | Some v \<Rightarrow> v) s, [], None)"
| "onmessage sr (SET_BPM b) s =
     (let s' = updateTiming sr (s\<lparr>bpm := b\<rparr>) in (s', [LOG_OUT (BpmSet (bpm s'))], None))"
| "onmessage sr (TOGGLE_METRONOME b) s =
     (let s' = s\<lparr>isMetronomeEnabled := b\<rparr>
      in ((if isMetronomeEnabled s' then s'\<lparr>nextClickCountdown := 0, currentBeat := 0\<rparr> else s'),
          [], None))"
| "onmessage sr (LOG l) s = (s, [], None)"
| "onmessage sr (SET_CHOKE_GROUP ident g) s =
     (s\<lparr>chokeGroups := (chokeGroups s)(ident \<mapsto> g)\<rparr>, [LOG_OUT (ChokeGroupSet g ident)], None)"

subsection \<open>The clock\<close>

definition triggerMetronome :: "MainProcessor \<Rightarrow> MainProcessor \<times> Posted list" where
  "triggerMetronome s =
     (let s1 = s\<lparr>metronomePhase := 3000\<rparr>;
          s2 = (if currentBeat s1 = 0 then s1\<lparr>clickFreq := 0.25, clickAmp := 0.5\<rparr>
                else s1\<lparr>clickFreq := 0.15, clickAmp := 0.3\<rparr>)
      in (s2\<lparr>currentBeat := (currentBeat s2 + 1) mod 4\<rparr>, [BEAT (currentBeat s1)]))"

text \<open>One iteration of the clock loop of \<open>process\<close>.\<close>

definition clockFrame :: "MainProcessor \<Rightarrow> MainProcessor \<times> Posted list" where
  "clockFrame s =
     (let s1 = s\<lparr>nextClickCountdown := nextClickCountdown s - 1\<rparr>;
          (s2, e1) = (if nextClickCountdown s1 \<le> 0
                      then (let (t, e) = triggerMetronome s1
                            in (t\<lparr>nextClickCountdown := samplesPerBeat t\<rparr>, e))
                      else (s1, []));
          s3 = s2\<lparr>ticksUntilNextClock := ticksUntilNextClock s2 - 1\<rparr>
      in if ticksUntilNextClock s3 \<le> 0
         then (s3\<lparr>ticksUntilNextClock := samplesPerBeat s3 / 24\<rparr>, e1 @ [CLOCK_TICK])
         else (s3, e1))"

fun clockLoop :: "nat \<Rightarrow> MainProcessor \<Rightarrow> MainProcessor \<times> Posted list" where
  "clockLoop 0 s = (s, [])"
| "clockLoop (Suc n) s =
     (let (s1, e1) = clockFrame s; (s2, e2) = clockLoop n s1 in (s2, e1 @ e2))"

subsection \<open>Metronome click and test tone\<close>

text \<open>
  The click loop from frame \<open>i\<close> with \<open>k\<close> frames left; it breaks when the envelope is
  used up.
\<close>

fun metronomeLoop :: "nat \<Rightarrow> nat \<Rightarrow> MainProcessor \<Rightarrow> jsnum list list \<Rightarrow> MainProcessor \<times> jsnum list list" where
  "metronomeLoop 0 i s mix = (s, mix)"
| "metronomeLoop (Suc k) i s mix =
     (if metronomePhase s > 0 then
        (let clickSample = Num (sin (metronomePhase s * clickFreq s) * clickAmp s)
         in metronomeLoop k (Suc i) (s\<lparr>metronomePhase := metronomePhase s - 15\<rparr>)
              (addFrame (\<lambda>ch. clickSample) i 0 mix))
      else (s, mix))"

fun toneLoop :: "real \<Rightarrow> nat \<Rightarrow> nat \<Rightarrow> MainProcessor \<Rightarrow> jsnum list list \<Rightarrow> MainProcessor \<times> jsnum list list" where
  "toneLoop sr 0 i s mix = (s, mix)"
| "toneLoop sr (Suc k) i s mix =
     (let sample = Num (0.5 * sin (2 * pi * phase s));
          p1 = phase s + 440.0 / sr;
          p2 = (if p1 > 1 then p1 - 1 else p1)
      in toneLoop sr k (Suc i) (s\<lparr>phase := p2\<rparr>) (addFrame (\<lambda>ch. sample) i 0 mix))"

subsection \<open>The sampler\<close>

text \<open>
  \<open>visOutput\<close>: the index of the output whose channel 0 is the voice's visualization
  bus, when \<open>outputs[visSlot + 1]\<close> exists and has a channel; \<open>null\<close> otherwise.
\<close>

definition visOutput :: "SampleVoice \<Rightarrow> jsnum list list list \<Rightarrow> nat option" where
  "visOutput voice outputs =
     (let visOutputIndex = visSlot voice + 1
      in if visOutputIndex < length outputs \<and> outputs ! visOutputIndex \<noteq> []
         then Some visOutputIndex else None)"

text \<open>
  The two values a frame adds: \<open>buffer[Math.min(ch, buffer.length - 1)][bufferIndex] * gain\<close>
  to channel \<open>ch\<close> of the mix, \<open>buffer[0][bufferIndex] * gain\<close> to the visualization
  bus. Both are read for a buffer with at least one channel.
\<close>

definition mixSample :: "jsnum list list \<Rightarrow> SampleVoice \<Rightarrow> nat \<Rightarrow> jsnum" where
  "mixSample buffer voice ch =
     jscale (typedGet (buffer ! min ch (length buffer - 1)) (bufferIndex voice)) (gain voice)"

definition visSample :: "jsnum list list \<Rightarrow> SampleVoice \<Rightarrow> jsnum" where
  "visSample buffer voice = jscale (typedGet (buffer ! 0) (bufferIndex voice)) (gain voice)"

text \<open>\<open>if (visOutput) visOutput[i] += x\<close>, where \<open>visOutput\<close> is channel 0 of output \<open>k\<close>.\<close>

definition writeVis :: "nat option \<Rightarrow> nat \<Rightarrow> jsnum \<Rightarrow> jsnum list list list \<Rightarrow> jsnum list list list" where
  "writeVis vis i x outputs =
     (case vis of
        None \<Rightarrow> outputs
      | Some k \<Rightarrow> outputs[k := (outputs ! k)[0 := typedAdd (outputs ! k ! 0) i x]])"

text \<open>
  \<open>voice.bufferIndex++; if (voice.bufferIndex >= buffer[0].length) voice.isPlaying = false\<close>.
\<close>

definition advance :: "jsnum list list \<Rightarrow> SampleVoice \<Rightarrow> SampleVoice" where
  "advance buffer voice =
     (let voice1 = voice\<lparr>bufferIndex := bufferIndex voice + 1\<rparr>
      in if bufferIndex voice1 \<ge> length (buffer ! 0) then voice1\<lparr>isPlaying := False\<rparr>
         else voice1)"

text \<open>
  The body of the frame loop of one voice, after the \<open>isPlaying\<close> test: the mix loop
  over the channels of \<open>outputs[0]\<close>, the visualization write, the cursor. With a buffer
  of no channel, \<open>Math.min(ch, buffer.length - 1)\<close> is \<open>-1\<close>, \<open>buffer[-1]\<close> is
  \<open>undefined\<close> and indexing it throws; \<open>buffer[0][..]\<close> and \<open>buffer[0].length\<close> throw
  likewise, so the body throws whatever the outputs are.
\<close>

definition voiceFrame :: "jsnum list list \<Rightarrow> nat option \<Rightarrow> nat \<Rightarrow> SampleVoice \<Rightarrow> jsnum list list list
    \<Rightarrow> error + SampleVoice \<times> jsnum list list list" where
  "voiceFrame buffer vis i voice outputs =
     (if buffer = [] then Inl TypeError
      else
        (let mixOutput = addFrame (mixSample buffer voice) i 0 (outputs ! 0);
             outs1 = outputs[0 := mixOutput];
             outs2 = writeVis vis i (visSample buffer voice) outs1
         in Inr (advance buffer voice, outs2)))"

text \<open>
  The frame loop of one voice from frame \<open>i\<close> with \<open>k\<close> frames left. The \<open>break\<close>
  after \<open>isPlaying = false\<close> is the test at the head of the next iteration.
\<close>

fun frameLoop :: "nat \<Rightarrow> nat \<Rightarrow> jsnum list list \<Rightarrow> nat option \<Rightarrow> SampleVoice \<Rightarrow> jsnum list list list
    \<Rightarrow> error + SampleVoice \<times> jsnum list list list" where
  "frameLoop 0 i buffer vis voice outputs = Inr (voice, outputs)"
| "frameLoop (Suc k) i buffer vis voice outputs =
     (if \<not> isPlaying voice then Inr (voice, outputs)
      else case voiceFrame buffer vis i voice outputs of
             Inl e \<Rightarrow> Inl e
           | Inr (voice', outputs') \<Rightarrow> frameLoop k (Suc i) buffer vis voice' outputs')"

definition renderVoice :: "jsnum list list \<Rightarrow> nat \<Rightarrow> SampleVoice \<Rightarrow> jsnum list list list
    \<Rightarrow> error + SampleVoice \<times> jsnum list list list" where
  "renderVoice buffer bufferSize voice outputs =
     frameLoop bufferSize 0 buffer (visOutput voice outputs) voice outputs"

text \<open>\<open>arr.splice(v, 1)\<close>.\<close>

definition splice1 :: "nat \<Rightarrow> 'a list \<Rightarrow> 'a list" where
  "splice1 v xs = take v xs @ drop (Suc v) xs"

text \<open>
  The voice loop \<open>for (v = length - 1; v >= 0; v--)\<close>; the first argument is \<open>v + 1\<close>.
\<close>

fun samplerLoop :: "nat \<Rightarrow> (string \<rightharpoonup> jsnum list list) \<Rightarrow> nat \<Rightarrow> SampleVoice list
    \<Rightarrow> jsnum list list list \<Rightarrow> error + SampleVoice list \<times> jsnum list list list" where
  "samplerLoop 0 buffers bufferSize voices outputs = Inr (voices, outputs)"
| "samplerLoop (Suc v) buffers bufferSize voices outputs =
     (case buffers (sampleId (voices ! v)) of
        None \<Rightarrow> samplerLoop v buffers bufferSize (splice1 v voices) outputs
      | Some buffer \<Rightarrow>
          (case renderVoice buffer bufferSize (voices ! v) outputs of
             Inl e \<Rightarrow> Inl e
           | Inr (voice', outputs') \<Rightarrow>
               samplerLoop v buffers bufferSize
                 (if \<not> isPlaying voice' then splice1 v voices else voices[v := voice'])
                 outputs'))"

subsection \<open>The render callback\<close>

text \<open>\<open>output[ch].fill(0)\<close> for every channel of every output.\<close>

definition clearOutputs :: "jsnum list list list \<Rightarrow> jsnum list list list" where
  "clearOutputs outputs = map (map (\<lambda>ch. replicate (length ch) (Num 0))) outputs"

text \<open>
  \<open>process\<close>: the messages posted, and either the exception that ends the call or the
  new state with the outputs as written. The messages of the clock loop are posted before
  the sampler runs, so they are posted also when the sampler throws. The return value is
  always \<open>true\<close> and is left out.
\<close>

definition process :: "real \<Rightarrow> jsnum list list list \<Rightarrow> MainProcessor
    \<Rightarrow> Posted list \<times> (error + MainProcessor \<times> jsnum list list list)" where
  "process sr outputs s =
     (if outputs = [] \<or> outputs ! 0 = [] then ([], Inr (s, outputs))
      else
        (let bufferSize = length (outputs ! 0 ! 0);
             outs0 = clearOutputs outputs;
             (s1, evs) = clockLoop bufferSize s;
             (s2, mix1) = (if isMetronomeEnabled s1 \<and> metronomePhase s1 > 0
                           then metronomeLoop bufferSize 0 s1 (outs0 ! 0)
                           else (s1, outs0 ! 0));
             (s3, mix2) = (if isTonePlaying s2 then toneLoop sr bufferSize 0 s2 mix1
                           else (s2, mix1));
             outs3 = outs0[0 := mix2]
         in (evs,
             case samplerLoop (length (activeVoices s3)) (sampleBuffers s3) bufferSize
                    (activeVoices s3) outs3 of
               Inl e \<Rightarrow> Inl e
             | Inr (voices, outs4) \<Rightarrow> Inr (s3\<lparr>activeVoices := voices\<rparr>, outs4))))"

text \<open>
  The outputs the host provisions (\<open>AudioManager.init\<close>: 17 outputs, channel counts
  \<open>[2, 1, ..., 1]\<close>), zeroed, for a block of \<open>n\<close> frames.
\<close>

definition hostOutputs :: "nat \<Rightarrow> jsnum list list list" where
  "hostOutputs n = replicate 2 (replicate n (Num 0)) # replicate 16 [replicate n (Num 0)]"

subsection \<open>Projections of results\<close>

text \<open>The voice and the mix bus (output 0) of a voice's render, the mix bus of a block.\<close>

definition masterOf :: "error + SampleVoice \<times> jsnum list list list \<Rightarrow> error + SampleVoice \<times> jsnum list list" where
  "masterOf r = (case r of Inl e \<Rightarrow> Inl e | Inr (v, outputs) \<Rightarrow> Inr (v, outputs ! 0))"

definition blockMaster :: "Posted list \<times> (error + MainProcessor \<times> jsnum list list list) \<Rightarrow> jsnum list list option" where
  "blockMaster r = (case snd r of Inl e \<Rightarrow> None | Inr (s', outputs') \<Rightarrow> Some (outputs' ! 0))"

subsection \<open>Example states\<close>

text \<open>The port delivers the messages in the order sent; each runs the handler.\<close>

definition applyAll :: "real \<Rightarrow> AudioMessage list \<Rightarrow> MainProcessor \<Rightarrow> MainProcessor" where
  "applyAll sr msgs s = foldl (\<lambda>s m. fst (onmessage sr m s)) s msgs"

text \<open>The voice that \<open>triggerVoice\<close> pushes.\<close>

definition newVoice :: "string \<Rightarrow> real \<Rightarrow> SampleVoice" where
  "newVoice ident velocity =
     \<lparr>sampleId = ident, bufferIndex = 0, isPlaying = True, gain = velocity, visSlot = padSlot ident\<rparr>"

text \<open>
  Three loaded pads, the first two in choke group 1, with a voice playing on the first
  and on the third.
\<close>

definition exampleKit :: MainProcessor where
  "exampleKit = applyAll 48000
     [LOAD_SAMPLE ''pad1'' [[Num 1, Num 1, Num 1, Num 1]],
      LOAD_SAMPLE ''pad2'' [[Num 1, Num 1, Num 1, Num 1]],
      LOAD_SAMPLE ''pad3'' [[Num 1, Num 1, Num 1, Num 1]],
      SET_CHOKE_GROUP ''pad1'' 1,
      SET_CHOKE_GROUP ''pad2'' 1,
      PLAY_SAMPLE ''pad1'' (Some 1),
      PLAY_SAMPLE ''pad3'' (Some 1)]
     (constructor 48000)"

text \<open>One pad in a choke group of its own, triggered twice.\<close>

definition exampleSelfChoke :: MainProcessor where
  "exampleSelfChoke = applyAll 48000
     [LOAD_SAMPLE ''pad1'' [[Num 1, Num 1, Num 1, Num 1]],
      SET_CHOKE_GROUP ''pad1'' 1,
      PLAY_SAMPLE ''pad1'' (Some 1),
      PLAY_SAMPLE ''pad1'' (Some 1)]
     (constructor 48000)"

text \<open>A processor in the middle of a beat: 2.5 frames before the next beat, half a frame
  before the next pulse.\<close>

definition exampleMidBar :: MainProcessor where
  "exampleMidBar = (constructor 48000)\<lparr>nextClickCountdown := 2.5, ticksUntilNextClock := 0.5\<rparr>"

text \<open>
  A mono sample of four frames of 1 loaded on a pad and triggered with velocity 0.5, on a
  fresh processor; the voice of that trigger on pad 1 with its cursor at a given frame;
  the processor after a first block of two frames on pad 1; outputs with a stereo mix bus
  and no visualization output.
\<close>

definition exampleTrig :: "real \<Rightarrow> string \<Rightarrow> MainProcessor" where
  "exampleTrig sr ident = applyAll sr
     [LOAD_SAMPLE ident [[Num 1, Num 1, Num 1, Num 1]], PLAY_SAMPLE ident (Some 0.5)]
     (constructor sr)"

definition exampleVoice :: "nat \<Rightarrow> SampleVoice" where
  "exampleVoice cursor =
     \<lparr>sampleId = ''pad1'', bufferIndex = cursor, isPlaying = True, gain = 0.5, visSlot = 0\<rparr>"

definition exampleInFlight :: MainProcessor where
  "exampleInFlight = (fst (clockLoop 2 (exampleTrig 48000 ''pad1'')))\<lparr>activeVoices := [exampleVoice 2]\<rparr>"



subsection \<open>The block in closed form\<close>

text \<open>
  The definitions of this subsection do not translate code. They state, without the
  loops, what the loops of \<open>process\<close> are to compute; the theorems compare them
  with the loops.
\<close>

text \<open>
  What a block is to do to the pulse countdown, stated on the countdown alone: a frame
  fires when the countdown less one is \<open>\<le> 0\<close>; the countdown is then reset to a
  24th of the beat interval, and decremented otherwise. The pulses of \<open>n\<close> frames
  are one \<open>CLOCK_TICK\<close> for each frame that fires.
\<close>

definition pulseFires :: "real \<Rightarrow> bool" where
  "pulseFires t = (t - 1 \<le> 0)"

definition pulseStep :: "real \<Rightarrow> real \<Rightarrow> real" where
  "pulseStep spb t = (if pulseFires t then spb / 24 else t - 1)"

definition pulsesOf :: "real \<Rightarrow> real \<Rightarrow> nat \<Rightarrow> Posted list" where
  "pulsesOf spb t n =
     concat (map (\<lambda>i. if pulseFires ((pulseStep spb ^^ i) t) then [CLOCK_TICK] else []) [0..<n])"

text \<open>
  What a block of \<open>n\<close> frames is to do with one voice: a playing voice renders
  frames until its cursor reaches the end of channel 0 of its sample (one frame at least,
  since the end is tested after the frame), a stopped voice none. Frame \<open>j\<close> of
  the block receives, on channel \<open>ch\<close>, the sample at the cursor (the last channel
  of the sample for the channels it lacks) times the gain. The cursor advances by the
  frames rendered, and the voice stops when it reaches the end.
\<close>

definition framesRendered :: "nat \<Rightarrow> jsnum list list \<Rightarrow> SampleVoice \<Rightarrow> nat" where
  "framesRendered n buffer voice =
     (if isPlaying voice then min n (max 1 (length (buffer ! 0) - bufferIndex voice)) else 0)"

definition voiceShare :: "nat \<Rightarrow> jsnum list list \<Rightarrow> SampleVoice \<Rightarrow> nat \<Rightarrow> nat \<Rightarrow> jsnum" where
  "voiceShare n buffer voice ch j =
     (if j < framesRendered n buffer voice
      then jscale (typedGet (buffer ! min ch (length buffer - 1)) (bufferIndex voice + j)) (gain voice)
      else Num 0)"

definition voiceAfter :: "nat \<Rightarrow> jsnum list list \<Rightarrow> SampleVoice \<Rightarrow> SampleVoice" where
  "voiceAfter n buffer voice =
     (if framesRendered n buffer voice = 0 then voice
      else voice\<lparr>bufferIndex := bufferIndex voice + framesRendered n buffer voice,
                 isPlaying := bufferIndex voice + framesRendered n buffer voice < length (buffer ! 0)\<rparr>)"

text \<open>
  The same for the voices of a block: the share of a voice is that of its sample (none
  when the pad has no sample), the voices left are those still playing, the mix bus
  receives the shares of all voices and output \<open>q\<close> those of the voices of slot
  \<open>q - 1\<close>. The sums are taken from the last voice to the first, as the sampler
  loop runs.
\<close>

definition blockShare :: "(string \<rightharpoonup> jsnum list list) \<Rightarrow> nat \<Rightarrow> SampleVoice \<Rightarrow> nat \<Rightarrow> nat \<Rightarrow> jsnum" where
  "blockShare buffers n voice ch j =
     (case buffers (sampleId voice) of
        None \<Rightarrow> Num 0
      | Some buffer \<Rightarrow> voiceShare n buffer voice ch j)"

definition voicesAfter :: "(string \<rightharpoonup> jsnum list list) \<Rightarrow> nat \<Rightarrow> SampleVoice list \<Rightarrow> SampleVoice list" where
  "voicesAfter buffers n voices =
     concat (map (\<lambda>v. case buffers (sampleId v) of
                          None \<Rightarrow> []
                        | Some buffer \<Rightarrow>
                            (if isPlaying (voiceAfter n buffer v) then [voiceAfter n buffer v] else []))
                 voices)"

definition mixSum :: "(string \<rightharpoonup> jsnum list list) \<Rightarrow> nat \<Rightarrow> SampleVoice list \<Rightarrow> nat \<Rightarrow> nat \<Rightarrow> jsnum \<Rightarrow> jsnum" where
  "mixSum buffers n voices ch j base =
     foldr (\<lambda>v acc. jadd acc (blockShare buffers n v ch j)) voices base"

definition visSum :: "(string \<rightharpoonup> jsnum list list) \<Rightarrow> nat \<Rightarrow> SampleVoice list \<Rightarrow> nat \<Rightarrow> nat \<Rightarrow> jsnum \<Rightarrow> jsnum" where
  "visSum buffers n voices q j base =
     foldr (\<lambda>v acc. if visSlot v + 1 = q then jadd acc (blockShare buffers n v 0 j) else acc)
       voices base"

text \<open>
  The steps of \<open>process\<close> before the sampler loop, on the mix bus alone; the state
  a block returns; the voices and the mix bus of a result of the sampler loop.
\<close>

definition beforeSampler :: "real \<Rightarrow> nat \<Rightarrow> jsnum list list \<Rightarrow> MainProcessor
    \<Rightarrow> Posted list \<times> MainProcessor \<times> jsnum list list" where
  "beforeSampler sr bufferSize mix0 s =
     (let (s1, evs) = clockLoop bufferSize s;
          (s2, mix1) = (if isMetronomeEnabled s1 \<and> metronomePhase s1 > 0
                        then metronomeLoop bufferSize 0 s1 mix0
                        else (s1, mix0));
          (s3, mix2) = (if isTonePlaying s2 then toneLoop sr bufferSize 0 s2 mix1
                        else (s2, mix1))
      in (evs, s3, mix2))"



section \<open>Properties\<close>

subsection \<open>Pad identifiers and slots\<close>

lemma isDigit_digitChar: "d < 10 \<Longrightarrow> isDigit (digitChar d)"
proof -
  assume "d < 10"
  then have "d \<in> set [0..<10]" by simp
  then show ?thesis
    by (simp add: upt_rec isDigit_def digitChar_def) (elim disjE; simp)
qed

lemma digitVal_digitChar: "d < 10 \<Longrightarrow> digitVal (digitChar d) = d"
proof -
  assume "d < 10"
  then have "d \<in> set [0..<10]" by simp
  then show ?thesis
    by (simp add: upt_rec digitVal_def digitChar_def) (elim disjE; simp)
qed

lemma digitsValue_snoc: "digitsValue (ds @ [c]) = 10 * digitsValue ds + digitVal c"
  by (simp add: digitsValue_def)

lemma toDecimal_digits: "list_all isDigit (toDecimal n)"
proof (induction n rule: toDecimal.induct)
  case (1 n)
  show ?case
  proof (cases "n < 10")
    case True
    then show ?thesis by (subst toDecimal.simps) (simp add: isDigit_digitChar)
  next
    case False
    with 1 show ?thesis by (subst toDecimal.simps) (simp add: isDigit_digitChar)
  qed
qed

lemma toDecimal_nonempty: "toDecimal n \<noteq> []"
  by (subst toDecimal.simps) simp

lemma digitsValue_toDecimal: "digitsValue (toDecimal n) = n"
proof (induction n rule: toDecimal.induct)
  case (1 n)
  show ?case
  proof (cases "n < 10")
    case True
    then show ?thesis
      by (subst toDecimal.simps) (simp add: digitsValue_def digitVal_digitChar)
  next
    case False
    with 1 show ?thesis
      by (subst toDecimal.simps) (simp add: digitsValue_snoc digitVal_digitChar)
  qed
qed

lemma isDigit_not_space: "isDigit c \<Longrightarrow> \<not> isWhiteSpace c"
  by (auto simp: isDigit_def isWhiteSpace_def)

lemma isDigit_not_sign: "isDigit c \<Longrightarrow> c \<noteq> CHR ''-'' \<and> c \<noteq> CHR ''+''"
  by (auto simp: isDigit_def)

text \<open>On a string of digits \<open>parseInt\<close> is the decimal value.\<close>

lemma parseInt_digits:
  assumes "ds \<noteq> []" "list_all isDigit ds"
  shows "parseInt ds = Some (int (digitsValue ds))"
proof -
  from assms obtain c cs where ds: "ds = c # cs" and c: "isDigit c"
    by (cases ds) auto
  have t: "dropWhile isWhiteSpace ds = ds"
    using c by (simp add: ds isDigit_not_space)
  have tw: "takeWhile isDigit ds = ds"
    using assms(2) by (simp add: list_all_iff)
  show ?thesis
    using isDigit_not_sign [OF c] assms(1) by (simp add: parseInt_def t tw) (simp add: ds)
qed

lemma replaceFirst_pad: "replaceFirst ''pad'' [] (''pad'' @ ds) = ds"
  by simp

text \<open>\<open>pad\<close> followed by digits only (leading zeros allowed) of value 1 to 16.\<close>

lemma padSlot_digits:
  assumes "ds \<noteq> []" "list_all isDigit ds" "1 \<le> digitsValue ds" "digitsValue ds \<le> 16"
  shows "padSlot (''pad'' @ ds) = digitsValue ds - 1"
proof -
  have "padSlot (''pad'' @ ds) =
      (case parseInt ds of None \<Rightarrow> 0
       | Some padNum \<Rightarrow> (if padNum \<ge> 1 \<and> padNum \<le> 16 then nat (padNum - 1) else 0))"
    unfolding padSlot_def replaceFirst_pad ..
  with assms show ?thesis by (simp add: parseInt_digits)
qed

lemma padSlot_padId: "1 \<le> N \<Longrightarrow> N \<le> 16 \<Longrightarrow> padSlot (padId N) = N - 1"
  using padSlot_digits [of "toDecimal N"]
  by (simp add: padId_def toDecimal_nonempty toDecimal_digits digitsValue_toDecimal)

lemma padSlot_le: "padSlot ident \<le> 15"
  by (auto simp: padSlot_def split: option.splits)

lemmas slot_eval = padSlot_def parseInt_def isWhiteSpace_def isDigit_def digitsValue_def
  digitVal_def

subsection \<open>The clock\<close>

text \<open>
  What one frame of the clock does to each countdown and what it posts; the fields the
  clock never writes; the frames without a beat or a pulse while a countdown has not run
  out, and the frame in which it does.
\<close>

lemma clockFrame_ticks:
  "ticksUntilNextClock (fst (clockFrame s))
     = (if ticksUntilNextClock s - 1 \<le> 0 then samplesPerBeat s / 24 else ticksUntilNextClock s - 1)"
  by (simp add: clockFrame_def triggerMetronome_def Let_def split: prod.splits)

lemma clockFrame_click:
  "nextClickCountdown (fst (clockFrame s))
     = (if nextClickCountdown s - 1 \<le> 0 then samplesPerBeat s else nextClickCountdown s - 1)"
  by (simp add: clockFrame_def triggerMetronome_def Let_def split: prod.splits)

lemma clockFrame_beat:
  "currentBeat (fst (clockFrame s))
     = (if nextClickCountdown s - 1 \<le> 0 then (currentBeat s + 1) mod 4 else currentBeat s)"
  by (simp add: clockFrame_def triggerMetronome_def Let_def split: prod.splits)

lemma clockFrame_posted:
  "snd (clockFrame s)
     = (if nextClickCountdown s - 1 \<le> 0 then [BEAT (currentBeat s)] else [])
       @ (if ticksUntilNextClock s - 1 \<le> 0 then [CLOCK_TICK] else [])"
  by (simp add: clockFrame_def triggerMetronome_def Let_def split: prod.splits)

lemma clockFrame_keeps:
  "samplesPerBeat (fst (clockFrame s)) = samplesPerBeat s"
  "sampleBuffers (fst (clockFrame s)) = sampleBuffers s"
  "activeVoices (fst (clockFrame s)) = activeVoices s"
  "isMetronomeEnabled (fst (clockFrame s)) = isMetronomeEnabled s"
  "isTonePlaying (fst (clockFrame s)) = isTonePlaying s"
  "bpm (fst (clockFrame s)) = bpm s"
  "chokeGroups (fst (clockFrame s)) = chokeGroups s"
  "phase (fst (clockFrame s)) = phase s"
  by (simp_all add: clockFrame_def triggerMetronome_def Let_def split: prod.splits)

lemma clockLoop_Suc:
  "clockLoop (Suc n) s = (fst (clockLoop n (fst (clockFrame s))), snd (clockFrame s) @ snd (clockLoop n (fst (clockFrame s))))"
  by (simp add: split_beta)

lemma clockLoop_keeps:
  "samplesPerBeat (fst (clockLoop n s)) = samplesPerBeat s
   \<and> sampleBuffers (fst (clockLoop n s)) = sampleBuffers s
   \<and> activeVoices (fst (clockLoop n s)) = activeVoices s
   \<and> isMetronomeEnabled (fst (clockLoop n s)) = isMetronomeEnabled s
   \<and> isTonePlaying (fst (clockLoop n s)) = isTonePlaying s
   \<and> bpm (fst (clockLoop n s)) = bpm s
   \<and> chokeGroups (fst (clockLoop n s)) = chokeGroups s
   \<and> phase (fst (clockLoop n s)) = phase s"
  by (induction n arbitrary: s) (simp_all add: split_beta clockFrame_keeps)

lemma clockLoop_add:
  "clockLoop (n + m) s = (fst (clockLoop m (fst (clockLoop n s))), snd (clockLoop n s) @ snd (clockLoop m (fst (clockLoop n s))))"
  by (induction n arbitrary: s) (simp_all add: split_beta)

lemma clockLoop_ticks_only:
  "ticksUntilNextClock s = ticksUntilNextClock t \<Longrightarrow> samplesPerBeat s = samplesPerBeat t \<Longrightarrow>
   filter isTick (snd (clockLoop n s)) = filter isTick (snd (clockLoop n t))
   \<and> ticksUntilNextClock (fst (clockLoop n s)) = ticksUntilNextClock (fst (clockLoop n t))"
proof (induction n arbitrary: s t)
  case 0
  then show ?case by simp
next
  case (Suc n)
  have a: "ticksUntilNextClock (fst (clockFrame s)) = ticksUntilNextClock (fst (clockFrame t))"
    using Suc.prems by (simp add: clockFrame_ticks)
  have b: "samplesPerBeat (fst (clockFrame s)) = samplesPerBeat (fst (clockFrame t))"
    using Suc.prems by (simp add: clockFrame_keeps)
  have c: "filter isTick (snd (clockFrame s)) = filter isTick (snd (clockFrame t))"
    using Suc.prems by (simp add: clockFrame_posted isTick_def)
  from Suc.IH [OF a b] c show ?case by (simp add: clockLoop_Suc del: clockLoop.simps)
qed

lemma clockLoop_quiet_beat:
  "real n < nextClickCountdown s \<Longrightarrow>
   filter isBeat (snd (clockLoop n s)) = []
   \<and> nextClickCountdown (fst (clockLoop n s)) = nextClickCountdown s - real n
   \<and> currentBeat (fst (clockLoop n s)) = currentBeat s"
proof (induction n arbitrary: s)
  case 0
  then show ?case by simp
next
  case (Suc n)
  then have q: "\<not> nextClickCountdown s - 1 \<le> 0" by simp
  have a: "real n < nextClickCountdown (fst (clockFrame s))"
    using Suc.prems q by (simp add: clockFrame_click)
  from Suc.IH [OF a] q show ?case
    by (simp add: clockLoop_Suc clockFrame_click clockFrame_beat clockFrame_posted del: clockLoop.simps)
qed

lemma clockLoop_quiet_tick:
  "real n < ticksUntilNextClock s \<Longrightarrow>
   filter isTick (snd (clockLoop n s)) = []
   \<and> ticksUntilNextClock (fst (clockLoop n s)) = ticksUntilNextClock s - real n"
proof (induction n arbitrary: s)
  case 0
  then show ?case by simp
next
  case (Suc n)
  then have q: "\<not> ticksUntilNextClock s - 1 \<le> 0" by simp
  have a: "real n < ticksUntilNextClock (fst (clockFrame s))"
    using Suc.prems q by (simp add: clockFrame_ticks)
  from Suc.IH [OF a] q show ?case
    by (simp add: clockLoop_Suc clockFrame_ticks clockFrame_posted isTick_def del: clockLoop.simps)
qed

lemma clockLoop_first_beat:
  "nextClickCountdown s \<le> 1 \<Longrightarrow> \<exists>rest. snd (clockLoop (Suc n) s) = BEAT (currentBeat s) # rest"
  by (simp add: clockLoop_Suc clockFrame_posted del: clockLoop.simps)

lemma process_posted:
  "fst (process sr outputs s)
     = (if outputs = [] \<or> outputs ! 0 = [] then [] else snd (clockLoop (length (outputs ! 0 ! 0)) s))"
  by (simp add: process_def Let_def split_beta)

lemma clockLoop_quiet_beat0:
  "n = 0 \<or> real n < nextClickCountdown s \<Longrightarrow>
   filter isBeat (snd (clockLoop n s)) = []
   \<and> nextClickCountdown (fst (clockLoop n s)) = nextClickCountdown s - real n
   \<and> currentBeat (fst (clockLoop n s)) = currentBeat s"
  using clockLoop_quiet_beat [of n s] by (cases "n = 0") auto

lemma clockLoop_quiet_tick0:
  "n = 0 \<or> real n < ticksUntilNextClock s \<Longrightarrow>
   filter isTick (snd (clockLoop n s)) = []
   \<and> ticksUntilNextClock (fst (clockLoop n s)) = ticksUntilNextClock s - real n"
  using clockLoop_quiet_tick [of n s] by (cases "n = 0") auto

lemma clockLoop_snoc:
  "clockLoop (Suc n) s = (fst (clockFrame (fst (clockLoop n s))),
                           snd (clockLoop n s) @ snd (clockFrame (fst (clockLoop n s))))"
  using clockLoop_add [of n 1 s] by (simp add: split_beta)

text \<open>The beat countdown alone decides the frame of the next beat; the reset takes the
  interval stored at that frame.\<close>

lemma clockLoop_next_beat:
  assumes "n = 0 \<or> real n < nextClickCountdown s" and "nextClickCountdown s \<le> real n + 1"
  shows "filter isBeat (snd (clockLoop n s)) = []
       \<and> filter isBeat (snd (clockLoop (Suc n) s)) = [BEAT (currentBeat s)]
       \<and> nextClickCountdown (fst (clockLoop (Suc n) s)) = samplesPerBeat s"
proof -
  note q = clockLoop_quiet_beat0 [OF assms(1)]
  have e: "nextClickCountdown (fst (clockLoop n s)) - 1 \<le> 0"
    using q assms(2) by simp
  have isb: "filter isBeat (snd (clockFrame (fst (clockLoop n s)))) = [BEAT (currentBeat s)]"
    using e q by (simp add: clockFrame_posted)
  show ?thesis
    using q e isb
    by (simp add: clockLoop_snoc clockFrame_click clockLoop_keeps del: clockLoop.simps)
qed

lemma clockLoop_next_tick:
  assumes "n = 0 \<or> real n < ticksUntilNextClock s" and "ticksUntilNextClock s \<le> real n + 1"
  shows "filter isTick (snd (clockLoop n s)) = []
       \<and> filter isTick (snd (clockLoop (Suc n) s)) = [CLOCK_TICK]
       \<and> ticksUntilNextClock (fst (clockLoop (Suc n) s)) = samplesPerBeat s / 24"
proof -
  note q = clockLoop_quiet_tick0 [OF assms(1)]
  have e: "ticksUntilNextClock (fst (clockLoop n s)) - 1 \<le> 0"
    using q assms(2) by simp
  have isb: "filter isTick (snd (clockFrame (fst (clockLoop n s)))) = [CLOCK_TICK]"
    using e q by (simp add: clockFrame_posted isTick_def)
  show ?thesis
    using q e isb
    by (simp add: clockLoop_snoc clockFrame_ticks clockLoop_keeps del: clockLoop.simps)
qed

lemma set_bpm_state:
  "onmessage sr (SET_BPM b) s
     = (s\<lparr>bpm := b, samplesPerBeat := sr * 60 / b\<rparr>, [LOG_OUT (BpmSet b)], None)"
  by (simp add: updateTiming_def)

text \<open>At 24000 frames a beat, two pulses are 1000 frames apart.\<close>

lemma pulse_interval:
  assumes "samplesPerBeat s = 24000" and "ticksUntilNextClock s \<le> 1"
  shows "filter isTick (snd (clockLoop 1000 s)) = [CLOCK_TICK]
       \<and> filter isTick (snd (clockLoop 1001 s)) = [CLOCK_TICK, CLOCK_TICK]"
proof -
  let ?u = "fst (clockFrame s)"
  have u: "ticksUntilNextClock ?u = 1000" "samplesPerBeat ?u = 24000"
    using assms by (simp_all add: clockFrame_ticks clockFrame_keeps)
  have f: "filter isTick (snd (clockFrame s)) = [CLOCK_TICK]"
    using assms by (simp add: clockFrame_posted isTick_def)
  have q: "filter isTick (snd (clockLoop 999 ?u)) = []
         \<and> filter isTick (snd (clockLoop (Suc 999) ?u)) = [CLOCK_TICK]"
    using clockLoop_next_tick [of 999 ?u] u by simp
  have o: "clockLoop (Suc 0) s = clockFrame s" by (simp add: split_beta)
  have a: "clockLoop 1000 s = (fst (clockLoop 999 ?u), snd (clockFrame s) @ snd (clockLoop 999 ?u))"
    using clockLoop_add [of 1 999 s] by (simp add: o del: clockLoop.simps)
  have b: "clockLoop 1001 s = (fst (clockLoop 1000 ?u), snd (clockFrame s) @ snd (clockLoop 1000 ?u))"
    using clockLoop_add [of 1 1000 s] by (simp add: o del: clockLoop.simps)
  show ?thesis
    unfolding a b using f q by simp
qed

subsection \<open>Typed arrays and frames\<close>

text \<open>
  Adding to a frame keeps every length, changes frame \<open>i\<close> of each channel and nothing
  else; the visualization write changes output \<open>k\<close> only.
\<close>

lemma jadd_zero [simp]: "jadd (Num 0) x = x"
  by (cases x) simp_all

lemma length_typedAdd [simp]: "length (typedAdd arr i x) = length arr"
  by (simp add: typedAdd_def)

lemma nth_typedAdd:
  "j < length arr \<Longrightarrow> typedAdd arr i x ! j = (if j = i then jadd (arr ! j) x else arr ! j)"
  by (simp add: typedAdd_def)

lemma typedAdd_nth_neq: "j \<noteq> i \<Longrightarrow> typedAdd arr i x ! j = arr ! j"
  by (simp add: typedAdd_def)

lemma length_addFrame [simp]: "length (addFrame f i ch mix) = length mix"
  by (induction mix arbitrary: ch) simp_all

lemma nth_addFrame:
  "c < length mix \<Longrightarrow> addFrame f i ch mix ! c = typedAdd (mix ! c) i (f (ch + c))"
proof (induction mix arbitrary: ch c)
  case Nil
  then show ?case by simp
next
  case (Cons a mix)
  then show ?case by (cases c) simp_all
qed

lemma length_writeVis [simp]: "length (writeVis vis i x outputs) = length outputs"
  by (simp add: writeVis_def split: option.splits)

lemma writeVis_Nil [simp]: "(writeVis vis i x outputs = []) = (outputs = [])"
  by (cases vis) (simp_all add: writeVis_def)

lemma writeVis_other: "vis \<noteq> Some q \<Longrightarrow> writeVis vis i x outputs ! q = outputs ! q"
  by (cases vis) (simp_all add: writeVis_def)

lemma writeVis_at:
  "k < length outputs \<Longrightarrow>
   writeVis (Some k) i x outputs ! k = (outputs ! k)[0 := typedAdd (outputs ! k ! 0) i x]"
  by (simp add: writeVis_def)

lemma advance_fields [simp]:
  "sampleId (advance buffer voice) = sampleId voice"
  "gain (advance buffer voice) = gain voice"
  "visSlot (advance buffer voice) = visSlot voice"
  "bufferIndex (advance buffer voice) = bufferIndex voice + 1"
  "isPlaying (advance buffer voice) = (isPlaying voice \<and> bufferIndex voice + 1 < length (buffer ! 0))"
  by (auto simp: advance_def Let_def)

subsection \<open>The frame loop of a voice\<close>

text \<open>
  A frame of a voice throws exactly when the buffer has no channel. Otherwise the loop
  returns; it keeps the number of outputs and the shape of the mix bus, leaves every
  output other than the mix bus and the visualization bus as it was, and from frame \<open>i\<close>
  on leaves the frames before \<open>i\<close> of the mix bus as they were. The voice and the mix bus
  that result depend on the mix bus given, not on the other outputs.
\<close>

lemma voiceFrame_empty [simp]: "voiceFrame [] vis i voice outputs = Inl TypeError"
  by (simp add: voiceFrame_def)

lemma voiceFrame_Inr:
  "buffer \<noteq> [] \<Longrightarrow>
   voiceFrame buffer vis i voice outputs
     = Inr (advance buffer voice,
            writeVis vis i (visSample buffer voice)
              (outputs[0 := addFrame (mixSample buffer voice) i 0 (outputs ! 0)]))"
  by (simp add: voiceFrame_def)

lemma voiceFrame_master:
  assumes "voiceFrame buffer vis i voice outputs = Inr (v', o')" "outputs \<noteq> []" "vis \<noteq> Some 0"
  shows "o' ! 0 = addFrame (mixSample buffer voice) i 0 (outputs ! 0) \<and> length o' = length outputs
    \<and> v' = advance buffer voice"
  using assms by (auto simp: voiceFrame_def writeVis_other split: if_splits)

lemma voiceFrame_other:
  assumes "voiceFrame buffer vis i voice outputs = Inr (v', o')" "q \<noteq> 0" "vis \<noteq> Some q"
  shows "o' ! q = outputs ! q"
  using assms by (auto simp: voiceFrame_def writeVis_other split: if_splits)

lemma visOutput_Some:
  "visOutput voice outputs = Some k \<Longrightarrow> k = visSlot voice + 1 \<and> k < length outputs \<and> outputs ! k \<noteq> []"
  by (auto simp: visOutput_def Let_def split: if_splits)

lemma visOutput_not0 [simp]: "visOutput voice outputs \<noteq> Some 0"
  by (auto simp: visOutput_def Let_def split: if_splits)

lemma frameLoop_Inr:
  "buffer \<noteq> [] \<Longrightarrow> \<exists>v' o'. frameLoop k i buffer vis voice outputs = Inr (v', o')"
proof (induction k arbitrary: i voice outputs)
  case 0
  then show ?case by simp
next
  case (Suc k)
  then show ?case by (simp add: voiceFrame_Inr)
qed


lemma frameLoop_other:
  assumes "frameLoop k i buffer vis voice outputs = Inr (v', o')" "q \<noteq> 0" "vis \<noteq> Some q"
  shows "o' ! q = outputs ! q"
  using assms
proof (induction k arbitrary: i voice outputs)
  case 0
  then show ?case by simp
next
  case (Suc k)
  show ?case
  proof (cases "isPlaying voice")
    case False
    then show ?thesis using Suc.prems by simp
  next
    case True
    then obtain v1 o1 where f: "voiceFrame buffer vis i voice outputs = Inr (v1, o1)"
      and r: "frameLoop k (Suc i) buffer vis v1 o1 = Inr (v', o')"
      using Suc.prems(1) by (auto split: sum.splits)
    have "o' ! q = o1 ! q" by (rule Suc.IH [OF r Suc.prems(2,3)])
    also have "o1 ! q = outputs ! q" by (rule voiceFrame_other [OF f Suc.prems(2,3)])
    finally show ?thesis .
  qed
qed


lemma frameLoop_master_indep:
  assumes "outsA \<noteq> []" "outsB \<noteq> []" "outsA ! 0 = outsB ! 0" "visA \<noteq> Some 0" "visB \<noteq> Some 0"
  shows "masterOf (frameLoop k i buffer visA voice outsA) = masterOf (frameLoop k i buffer visB voice outsB)"
  using assms
proof (induction k arbitrary: i voice outsA outsB)
  case 0
  then show ?case by (simp add: masterOf_def)
next
  case (Suc k)
  show ?case
  proof (cases "isPlaying voice \<and> buffer \<noteq> []")
    case False
    then show ?thesis using Suc.prems by (auto simp: masterOf_def)
  next
    case True
    let ?m = "addFrame (mixSample buffer voice) i 0 (outsA ! 0)"
    let ?oA = "writeVis visA i (visSample buffer voice) (outsA[0 := ?m])"
    let ?oB = "writeVis visB i (visSample buffer voice) (outsB[0 := ?m])"
    have a: "?oA \<noteq> []" "?oB \<noteq> []" using Suc.prems(1,2) by simp_all
    have b: "?oA ! 0 = ?oB ! 0" using Suc.prems by (simp add: writeVis_other)
    have "masterOf (frameLoop k (Suc i) buffer visA (advance buffer voice) ?oA)
        = masterOf (frameLoop k (Suc i) buffer visB (advance buffer voice) ?oB)"
      by (rule Suc.IH [OF a b Suc.prems(4,5)])
    then show ?thesis using True Suc.prems(3) by (simp add: voiceFrame_Inr)
  qed
qed

lemma frameLoop_master_shape:
  assumes "frameLoop k i buffer vis voice outputs = Inr (v', o')" "outputs \<noteq> []" "vis \<noteq> Some 0"
  shows "length (o' ! 0) = length (outputs ! 0)"
  using assms
proof (induction k arbitrary: i voice outputs)
  case 0
  then show ?case by simp
next
  case (Suc k)
  show ?case
  proof (cases "isPlaying voice")
    case False
    then show ?thesis using Suc.prems by simp
  next
    case True
    then obtain v1 o1 where f: "voiceFrame buffer vis i voice outputs = Inr (v1, o1)"
      and r: "frameLoop k (Suc i) buffer vis v1 o1 = Inr (v', o')"
      using Suc.prems(1) by (auto split: sum.splits)
    note m = voiceFrame_master [OF f Suc.prems(2,3)]
    have ne: "o1 \<noteq> []" using m Suc.prems(2) by auto
    have "length (o' ! 0) = length (o1 ! 0)" by (rule Suc.IH [OF r ne Suc.prems(3)])
    then show ?thesis using m by simp
  qed
qed

lemma frameLoop_below:
  assumes "frameLoop k i buffer vis voice outputs = Inr (v', o')" "outputs \<noteq> []" "vis \<noteq> Some 0"
    and "ch < length (outputs ! 0)" "j < i"
  shows "o' ! 0 ! ch ! j = outputs ! 0 ! ch ! j"
  using assms
proof (induction k arbitrary: i voice outputs)
  case 0
  then show ?case by simp
next
  case (Suc k)
  show ?case
  proof (cases "isPlaying voice")
    case False
    then show ?thesis using Suc.prems by simp
  next
    case True
    then obtain v1 o1 where f: "voiceFrame buffer vis i voice outputs = Inr (v1, o1)"
      and r: "frameLoop k (Suc i) buffer vis v1 o1 = Inr (v', o')"
      using Suc.prems(1) by (auto split: sum.splits)
    note m = voiceFrame_master [OF f Suc.prems(2,3)]
    have ne: "o1 \<noteq> []" using m Suc.prems(2) by auto
    have c: "ch < length (o1 ! 0)" using m Suc.prems(4) by simp
    have "o' ! 0 ! ch ! j = o1 ! 0 ! ch ! j"
      using Suc.IH [OF r ne Suc.prems(3) c] Suc.prems(5) by simp
    also have "\<dots> = outputs ! 0 ! ch ! j"
      using m Suc.prems(4,5) by (simp add: nth_addFrame typedAdd_nth_neq)
    finally show ?thesis .
  qed
qed

lemma frameLoop_first_frame:
  assumes "frameLoop (Suc k) i buffer vis voice outputs = Inr (v', o')" "outputs \<noteq> []" "vis \<noteq> Some 0"
    and "isPlaying voice" and "ch < length (outputs ! 0)" "i < length (outputs ! 0 ! ch)"
  shows "o' ! 0 ! ch ! i = jadd (outputs ! 0 ! ch ! i) (mixSample buffer voice ch)"
proof -
  from assms(1,4) obtain v1 o1 where f: "voiceFrame buffer vis i voice outputs = Inr (v1, o1)"
      and r: "frameLoop k (Suc i) buffer vis v1 o1 = Inr (v', o')"
    by (auto split: sum.splits)
  note m = voiceFrame_master [OF f assms(2,3)]
  have ne: "o1 \<noteq> []" using m assms(2) by auto
  have c: "ch < length (o1 ! 0)" using m assms(5) by simp
  have "o' ! 0 ! ch ! i = o1 ! 0 ! ch ! i"
    by (rule frameLoop_below [OF r ne assms(3) c]) simp
  also have "\<dots> = jadd (outputs ! 0 ! ch ! i) (mixSample buffer voice ch)"
    using m assms(5,6) by (simp add: nth_addFrame nth_typedAdd)
  finally show ?thesis .
qed

subsection \<open>The render callback\<close>

text \<open>
  With metronome and tone off, a block is the clock loop for the state and the sampler on
  the cleared outputs.
\<close>

lemma length_clearOutputs [simp]: "length (clearOutputs outputs) = length outputs"
  by (simp add: clearOutputs_def)

lemma clearOutputs_Nil [simp]: "(clearOutputs outputs = []) = (outputs = [])"
  by (simp add: clearOutputs_def)

lemma clearOutputs_nth:
  "q < length outputs \<Longrightarrow> clearOutputs outputs ! q = map (\<lambda>ch. replicate (length ch) (Num 0)) (outputs ! q)"
  by (simp add: clearOutputs_def)

lemma process_quiet:
  assumes "\<not> isMetronomeEnabled s" "\<not> isTonePlaying s" "outputs \<noteq> []" "outputs ! 0 \<noteq> []"
  shows "snd (process sr outputs s)
    = (case samplerLoop (length (activeVoices s)) (sampleBuffers s) (length (outputs ! 0 ! 0))
              (activeVoices s) (clearOutputs outputs) of
         Inl e \<Rightarrow> Inl e
       | Inr (voices, outs4) \<Rightarrow>
           Inr ((fst (clockLoop (length (outputs ! 0 ! 0)) s))\<lparr>activeVoices := voices\<rparr>, outs4))"
  using assms clockLoop_keeps [of "length (outputs ! 0 ! 0)" s]
  by (simp add: process_def Let_def split_beta split: sum.splits)

lemma samplerLoop_single:
  "samplerLoop (Suc 0) buffers n [voice] outputs
     = (case buffers (sampleId voice) of
          None \<Rightarrow> Inr ([], outputs)
        | Some buffer \<Rightarrow>
            (case renderVoice buffer n voice outputs of
               Inl e \<Rightarrow> Inl e
             | Inr (v', o') \<Rightarrow> Inr (if \<not> isPlaying v' then [] else [v'], o')))"
  by (simp add: splice1_def split: option.splits sum.splits)

lemma load_sample_state:
  "new \<noteq> [] \<Longrightarrow> fst (onmessage sr (LOAD_SAMPLE p new) s) = s\<lparr>sampleBuffers := (sampleBuffers s)(p \<mapsto> new)\<rparr>"
  by (cases new) simp_all

subsection \<open>Stopped voices\<close>

lemma frameLoop_stopped:
  "\<not> isPlaying voice \<Longrightarrow> frameLoop k i buffer vis voice outputs = Inr (voice, outputs)"
  by (cases k) simp_all

lemma renderVoice_stopped:
  "\<not> isPlaying voice \<Longrightarrow> renderVoice buffer n voice outputs = Inr (voice, outputs)"
  by (simp add: renderVoice_def frameLoop_stopped)

subsection \<open>The example kit\<close>

lemma exampleKit_eval:
  "activeVoices exampleKit =
     [\<lparr>sampleId = ''pad1'', bufferIndex = 0, isPlaying = True, gain = 1, visSlot = 0\<rparr>,
      \<lparr>sampleId = ''pad3'', bufferIndex = 0, isPlaying = True, gain = 1, visSlot = 2\<rparr>]"
  "chokeGroups exampleKit ''pad1'' = Some 1"
  "chokeGroups exampleKit ''pad2'' = Some 1"
  "chokeGroups exampleKit ''pad3'' = None"
  "sampleBuffers exampleKit ''pad1'' = Some [[Num 1, Num 1, Num 1, Num 1]]"
  "sampleBuffers exampleKit ''pad2'' = Some [[Num 1, Num 1, Num 1, Num 1]]"
  "sampleBuffers exampleKit ''pad3'' = Some [[Num 1, Num 1, Num 1, Num 1]]"
  by (simp_all add: exampleKit_def applyAll_def constructor_def updateTiming_def triggerVoice_def slot_eval)

subsection \<open>The example render calls\<close>

text \<open>The example states and their render calls, evaluated.\<close>

lemma exampleTrig_any:
  "activeVoices (exampleTrig sr ident)
     = [\<lparr>sampleId = ident, bufferIndex = 0, isPlaying = True, gain = 0.5,
          visSlot = padSlot ident\<rparr>]"
  "sampleBuffers (exampleTrig sr ident) ident = Some [[Num 1, Num 1, Num 1, Num 1]]"
  "\<not> isMetronomeEnabled (exampleTrig sr ident)" "\<not> isTonePlaying (exampleTrig sr ident)"
  by (simp_all add: exampleTrig_def applyAll_def constructor_def updateTiming_def triggerVoice_def)

lemma exampleTrig_eval:
  "activeVoices (exampleTrig sr ''pad1'') = [\<lparr>sampleId = ''pad1'', bufferIndex = 0, isPlaying = True, gain = 0.5, visSlot = 0\<rparr>]"
  "sampleBuffers (exampleTrig sr ''pad1'') ''pad1'' = Some [[Num 1, Num 1, Num 1, Num 1]]"
  "\<not> isMetronomeEnabled (exampleTrig sr ''pad1'')" "\<not> isTonePlaying (exampleTrig sr ''pad1'')"
  by (simp_all add: exampleTrig_def applyAll_def constructor_def updateTiming_def triggerVoice_def slot_eval)

lemma hostOutputs_shape: "hostOutputs n \<noteq> []" "hostOutputs n ! 0 \<noteq> []" "length (hostOutputs n ! 0 ! 0) = n"
  by (simp_all add: hostOutputs_def numeral_2_eq_2)

lemmas render_eval = renderVoice_def visOutput_def hostOutputs_def clearOutputs_def eval_nat_numeral
      voiceFrame_def writeVis_def mixSample_def visSample_def typedGet_def typedAdd_def advance_def Let_def

lemma exampleVoice_fields [simp]:
  "sampleId (exampleVoice c) = ''pad1''" "isPlaying (exampleVoice c)" "bufferIndex (exampleVoice c) = c"
  "gain (exampleVoice c) = 0.5" "visSlot (exampleVoice c) = 0"
  by (simp_all add: exampleVoice_def)

lemma exampleTrig_voice: "activeVoices (exampleTrig sr ''pad1'') = [exampleVoice 0]"
  by (simp add: exampleTrig_eval exampleVoice_def)

lemma render8: "renderVoice [[Num 1, Num 1, Num 1, Num 1]] 8
    \<lparr>sampleId = ''pad1'', bufferIndex = 0, isPlaying = True, gain = 0.5, visSlot = 0\<rparr>
    (clearOutputs (hostOutputs 8))
  = Inr (\<lparr>sampleId = ''pad1'', bufferIndex = 4, isPlaying = False, gain = 0.5, visSlot = 0\<rparr>,
     [[Num 0.5, Num 0.5, Num 0.5, Num 0.5, Num 0, Num 0, Num 0, Num 0],
      [Num 0.5, Num 0.5, Num 0.5, Num 0.5, Num 0, Num 0, Num 0, Num 0]]
     # [[Num 0.5, Num 0.5, Num 0.5, Num 0.5, Num 0, Num 0, Num 0, Num 0]]
     # replicate 15 [replicate 8 (Num 0)])"
  by (simp add: renderVoice_def visOutput_def hostOutputs_def clearOutputs_def eval_nat_numeral
      voiceFrame_def writeVis_def mixSample_def visSample_def typedGet_def typedAdd_def advance_def Let_def)

lemma render2_start:
  "renderVoice [[Num 1, Num 1, Num 1, Num 1]] 2 (exampleVoice 0) (clearOutputs (hostOutputs 2))
   = Inr (exampleVoice 2,
       [[Num 0.5, Num 0.5], [Num 0.5, Num 0.5]] # [[Num 0.5, Num 0.5]] # replicate 15 [replicate 2 (Num 0)])"
  by (simp add: exampleVoice_def render_eval)

lemma render2_old:
  "renderVoice [[Num 1, Num 1, Num 1, Num 1]] 2 (exampleVoice 2) (clearOutputs (hostOutputs 2))
   = Inr ((exampleVoice 4)\<lparr>isPlaying := False\<rparr>,
       [[Num 0.5, Num 0.5], [Num 0.5, Num 0.5]] # [[Num 0.5, Num 0.5]] # replicate 15 [replicate 2 (Num 0)])"
  by (simp add: exampleVoice_def render_eval)

lemma render2_new:
  "renderVoice [[Num 2, Num 2, Num 2, Num 2]] 2 (exampleVoice 2) (clearOutputs (hostOutputs 2))
   = Inr ((exampleVoice 4)\<lparr>isPlaying := False\<rparr>,
       [[Num 1, Num 1], [Num 1, Num 1]] # [[Num 1, Num 1]] # replicate 15 [replicate 2 (Num 0)])"
  by (simp add: exampleVoice_def render_eval)

lemma render2_short:
  "renderVoice [[Num 2]] 2 (exampleVoice 2) (clearOutputs (hostOutputs 2))
   = Inr ((exampleVoice 3)\<lparr>isPlaying := False\<rparr>,
       [[NaN, Num 0], [NaN, Num 0]] # [[NaN, Num 0]] # replicate 15 [replicate 2 (Num 0)])"
  by (simp add: exampleVoice_def render_eval)

lemma exampleInFlight_eval:
  "activeVoices exampleInFlight = [exampleVoice 2]"
  "sampleBuffers exampleInFlight ''pad1'' = Some [[Num 1, Num 1, Num 1, Num 1]]"
  "\<not> isMetronomeEnabled exampleInFlight" "\<not> isTonePlaying exampleInFlight"
  using clockLoop_keeps [of 2 "exampleTrig 48000 ''pad1''"]
  by (simp_all add: exampleInFlight_def exampleTrig_eval del: clockLoop.simps)

subsection \<open>The pulse schedule\<close>

text \<open>The clock loop posts the pulses of the schedule and leaves the stepped countdown;
  metronome click and test tone do not write the pulse fields.\<close>

lemma pulsesOf_0 [simp]: "pulsesOf spb t 0 = []"
  by (simp add: pulsesOf_def)

lemma pulsesOf_Suc:
  "pulsesOf spb t (Suc n)
     = (if pulseFires t then [CLOCK_TICK] else []) @ pulsesOf spb (pulseStep spb t) n"
proof -
  have "[0..<Suc n] = 0 # map Suc [0..<n]"
    by (simp add: upt_conv_Cons map_Suc_upt del: upt_Suc)
  then show ?thesis
    by (simp add: pulsesOf_def funpow_swap1 comp_def del: upt_Suc)
qed

lemma clockLoop_pulses:
  "filter isTick (snd (clockLoop n s)) = pulsesOf (samplesPerBeat s) (ticksUntilNextClock s) n
   \<and> ticksUntilNextClock (fst (clockLoop n s))
       = (pulseStep (samplesPerBeat s) ^^ n) (ticksUntilNextClock s)"
proof (induction n arbitrary: s)
  case 0
  then show ?case by simp
next
  case (Suc n)
  have f: "filter isTick (snd (clockFrame s)) = (if pulseFires (ticksUntilNextClock s) then [CLOCK_TICK] else [])"
    by (simp add: clockFrame_posted isTick_def pulseFires_def)
  have t: "ticksUntilNextClock (fst (clockFrame s)) = pulseStep (samplesPerBeat s) (ticksUntilNextClock s)"
    by (simp add: clockFrame_ticks pulseStep_def pulseFires_def)
  show ?case
    using Suc.IH [of "fst (clockFrame s)"] f t
    by (simp add: clockLoop_Suc pulsesOf_Suc clockFrame_keeps funpow_swap1 del: clockLoop.simps)
qed

lemma metronomeLoop_keeps:
  "ticksUntilNextClock (fst (metronomeLoop k i s mix)) = ticksUntilNextClock s
   \<and> samplesPerBeat (fst (metronomeLoop k i s mix)) = samplesPerBeat s"
  by (induction k arbitrary: i s mix) (simp_all add: Let_def)

lemma toneLoop_keeps:
  "ticksUntilNextClock (fst (toneLoop sr k i s mix)) = ticksUntilNextClock s
   \<and> samplesPerBeat (fst (toneLoop sr k i s mix)) = samplesPerBeat s"
  by (induction k arbitrary: i s mix) (simp_all add: Let_def)

lemma process_pulse_state:
  assumes "snd (process sr outputs s) = Inr (s', outs')" "outputs \<noteq> []" "outputs ! 0 \<noteq> []"
  shows "ticksUntilNextClock s' = ticksUntilNextClock (fst (clockLoop (length (outputs ! 0 ! 0)) s))
       \<and> samplesPerBeat s' = samplesPerBeat s"
  using assms metronomeLoop_keeps toneLoop_keeps clockLoop_keeps [of "length (outputs ! 0 ! 0)" s]
  by (auto simp: process_def Let_def split_beta split: sum.splits if_splits)

subsection \<open>A voice in closed form\<close>

text \<open>The frame loop of a voice leaves the voice advanced by the frames it rendered, and
  adds the share of the voice to the frames of the mix bus and of its visualization output.\<close>

lemma jadd_zero_right [simp]: "jadd x (Num 0) = x"
  by (cases x) simp_all

lemma framesRendered_0 [simp]: "framesRendered 0 buffer voice = 0"
  by (simp add: framesRendered_def)

lemma framesRendered_stopped [simp]: "\<not> isPlaying voice \<Longrightarrow> framesRendered n buffer voice = 0"
  by (simp add: framesRendered_def)

lemma framesRendered_Suc:
  "isPlaying voice \<Longrightarrow>
   framesRendered (Suc k) buffer voice = Suc (framesRendered k buffer (advance buffer voice))"
  by (auto simp: framesRendered_def min_def max_def)

lemma voiceShare_first:
  "isPlaying voice \<Longrightarrow> voiceShare (Suc k) buffer voice ch 0 = mixSample buffer voice ch"
  by (simp add: voiceShare_def framesRendered_Suc mixSample_def)

lemma voiceShare_Suc:
  "isPlaying voice \<Longrightarrow>
   voiceShare (Suc k) buffer voice ch (Suc d) = voiceShare k buffer (advance buffer voice) ch d"
  by (simp add: voiceShare_def framesRendered_Suc)

lemma voiceShare_none [simp]:
  "\<not> isPlaying voice \<Longrightarrow> voiceShare n buffer voice ch j = Num 0"
  "voiceShare 0 buffer voice ch j = Num 0"
  by (simp_all add: voiceShare_def)

lemma voiceAfter_none [simp]:
  "\<not> isPlaying voice \<Longrightarrow> voiceAfter n buffer voice = voice"
  "voiceAfter 0 buffer voice = voice"
  by (simp_all add: voiceAfter_def)

lemma advance_playing:
  "isPlaying voice \<Longrightarrow>
   advance buffer voice
     = voice\<lparr>bufferIndex := bufferIndex voice + 1,
              isPlaying := bufferIndex voice + 1 < length (buffer ! 0)\<rparr>"
  by (auto simp: advance_def Let_def)

lemma voiceAfter_Suc:
  assumes "isPlaying voice"
  shows "voiceAfter (Suc k) buffer voice = voiceAfter k buffer (advance buffer voice)"
proof (cases "framesRendered k buffer (advance buffer voice) = 0")
  case True
  then show ?thesis
    using assms by (simp add: voiceAfter_def framesRendered_Suc advance_playing)
next
  case False
  then show ?thesis
    using assms
    by (simp add: voiceAfter_def framesRendered_Suc)
qed

lemma frameLoop_voice:
  "buffer \<noteq> [] \<Longrightarrow> frameLoop k i buffer vis voice outputs = Inr (v', o') \<Longrightarrow> v' = voiceAfter k buffer voice"
proof (induction k arbitrary: i voice outputs)
  case 0
  then show ?case by simp
next
  case (Suc k)
  show ?case
  proof (cases "isPlaying voice")
    case False
    then show ?thesis using Suc.prems by simp
  next
    case True
    then show ?thesis
      using Suc.prems Suc.IH [of "Suc i" "advance buffer voice"]
      by (simp add: voiceFrame_Inr voiceAfter_Suc)
  qed
qed

lemma frameLoop_mix:
  assumes "frameLoop k i buffer vis voice outputs = Inr (v', o')" "buffer \<noteq> []" "outputs \<noteq> []"
    and "vis \<noteq> Some 0" "ch < length (outputs ! 0)" "j < length (outputs ! 0 ! ch)"
  shows "length (o' ! 0 ! ch) = length (outputs ! 0 ! ch)
       \<and> o' ! 0 ! ch ! j
         = (if i \<le> j then jadd (outputs ! 0 ! ch ! j) (voiceShare k buffer voice ch (j - i))
            else outputs ! 0 ! ch ! j)"
  using assms
proof (induction k arbitrary: i voice outputs)
  case 0
  then show ?case by simp
next
  case (Suc k)
  show ?case
  proof (cases "isPlaying voice")
    case False
    then show ?thesis using Suc.prems by simp
  next
    case True
    let ?o1 = "writeVis vis i (visSample buffer voice)
                 (outputs[0 := addFrame (mixSample buffer voice) i 0 (outputs ! 0)])"
    have r: "frameLoop k (Suc i) buffer vis (advance buffer voice) ?o1 = Inr (v', o')"
      using Suc.prems(1,2) True by (simp add: voiceFrame_Inr)
    have m: "?o1 ! 0 = addFrame (mixSample buffer voice) i 0 (outputs ! 0)"
      using Suc.prems(3,4) by (simp add: writeVis_other)
    have ne: "?o1 \<noteq> []" using Suc.prems(3) by simp
    have c: "ch < length (?o1 ! 0)" using Suc.prems(5) by (simp add: m)
    have l: "length (?o1 ! 0 ! ch) = length (outputs ! 0 ! ch)"
      using Suc.prems(5) by (simp add: m nth_addFrame)
    have jj: "j < length (?o1 ! 0 ! ch)" using Suc.prems(6) l by simp
    have v: "?o1 ! 0 ! ch ! j
        = (if j = i then jadd (outputs ! 0 ! ch ! j) (mixSample buffer voice ch) else outputs ! 0 ! ch ! j)"
      using Suc.prems(5,6) by (simp add: m nth_addFrame nth_typedAdd)
    note ih = Suc.IH [OF r Suc.prems(2) ne Suc.prems(4) c jj]
    show ?thesis
    proof (cases "j < i")
      case True
      then show ?thesis using ih l v by simp
    next
      case False
      note nl = this
      show ?thesis
      proof (cases "j = i")
        case True
        then show ?thesis using ih l v \<open>isPlaying voice\<close> by (simp add: voiceShare_first)
      next
        case False
        then obtain d where d: "j - i = Suc d" "j - Suc i = d" using nl by (cases "j - i") auto
        then show ?thesis using ih l v False nl \<open>isPlaying voice\<close> by (simp add: voiceShare_Suc)
      qed
    qed
  qed
qed

lemma map_length_addFrame [simp]: "map length (addFrame f i ch mix) = map length mix"
  by (induction mix arbitrary: ch) simp_all

lemma map_update_same: "f y = f (xs ! k) \<Longrightarrow> map f (xs[k := y]) = map f xs"
  by (cases "k < length xs") (simp_all add: map_update list_update_same_conv list_update_beyond)

lemma shape_update:
  "map length y = map length (xs ! k) \<Longrightarrow> map (map length) (xs[k := y]) = map (map length) xs"
  by (rule map_update_same)

lemma shape_writeVis [simp]:
  "map (map length) (writeVis vis i x outputs) = map (map length) outputs"
proof (cases vis)
  case None
  then show ?thesis by (simp add: writeVis_def)
next
  case (Some k)
  have "map length ((outputs ! k)[0 := typedAdd (outputs ! k ! 0) i x]) = map length (outputs ! k)"
    by (rule map_update_same) simp
  then show ?thesis using Some by (simp add: writeVis_def shape_update)
qed

lemma shape_voiceFrame:
  "voiceFrame buffer vis i voice outputs = Inr (v', o') \<Longrightarrow>
   map (map length) o' = map (map length) outputs"
  by (auto simp: voiceFrame_def shape_update split: if_splits)

lemma shape_frameLoop:
  "frameLoop k i buffer vis voice outputs = Inr (v', o') \<Longrightarrow>
   map (map length) o' = map (map length) outputs"
proof (induction k arbitrary: i voice outputs)
  case 0
  then show ?case by simp
next
  case (Suc k)
  show ?case
  proof (cases "isPlaying voice")
    case False
    then show ?thesis using Suc.prems by simp
  next
    case True
    then obtain v1 o1 where f: "voiceFrame buffer vis i voice outputs = Inr (v1, o1)"
      and r: "frameLoop k (Suc i) buffer vis v1 o1 = Inr (v', o')"
      using Suc.prems(1) by (auto split: sum.splits)
    show ?thesis using Suc.IH [OF r] shape_voiceFrame [OF f] by simp
  qed
qed

lemma shape_nth:
  assumes "map (map length) o' = map (map length) outputs"
  shows "length o' = length outputs"
    and "q < length outputs \<Longrightarrow> length (o' ! q) = length (outputs ! q)"
    and "q < length outputs \<Longrightarrow> c < length (outputs ! q) \<Longrightarrow> length (o' ! q ! c) = length (outputs ! q ! c)"
proof -
  show l: "length o' = length outputs" using assms by (metis length_map)
  { assume q: "q < length outputs"
    have m: "map length (o' ! q) = map length (outputs ! q)"
      using assms q l by (metis nth_map)
    then show "length (o' ! q) = length (outputs ! q)" by (metis length_map)
    { assume c: "c < length (outputs ! q)"
      then show "length (o' ! q ! c) = length (outputs ! q ! c)"
        using m by (metis length_map nth_map) } }
qed

lemma visSample_mixSample: "buffer \<noteq> [] \<Longrightarrow> visSample buffer voice = mixSample buffer voice 0"
  by (simp add: visSample_def mixSample_def)

lemma frameLoop_vis:
  assumes "frameLoop k i buffer (Some q) voice outputs = Inr (v', o')" "buffer \<noteq> []"
    and "q \<noteq> 0" "q < length outputs" "c < length (outputs ! q)" "j < length (outputs ! q ! c)"
  shows "o' ! q ! c ! j
         = (if c = 0 \<and> i \<le> j then jadd (outputs ! q ! c ! j) (voiceShare k buffer voice 0 (j - i))
            else outputs ! q ! c ! j)"
  using assms
proof (induction k arbitrary: i voice outputs)
  case 0
  then show ?case by simp
next
  case (Suc k)
  show ?case
  proof (cases "isPlaying voice")
    case False
    then show ?thesis using Suc.prems by simp
  next
    case True
    let ?o0 = "outputs[0 := addFrame (mixSample buffer voice) i 0 (outputs ! 0)]"
    let ?o1 = "writeVis (Some q) i (visSample buffer voice) ?o0"
    have r: "frameLoop k (Suc i) buffer (Some q) (advance buffer voice) ?o1 = Inr (v', o')"
      using Suc.prems(1,2) True by (simp add: voiceFrame_Inr)
    have f: "voiceFrame buffer (Some q) i voice outputs = Inr (advance buffer voice, ?o1)"
      using Suc.prems(2) by (simp add: voiceFrame_Inr)
    note sh = shape_nth [OF shape_voiceFrame [OF f]]
    have q0: "?o0 ! q = outputs ! q" using Suc.prems(3) by simp
    have at: "?o1 ! q = (outputs ! q)[0 := typedAdd (outputs ! q ! 0) i (visSample buffer voice)]"
      using Suc.prems(4) q0 by (simp add: writeVis_at)
    have v: "?o1 ! q ! c ! j
        = (if c = 0 \<and> j = i then jadd (outputs ! q ! c ! j) (mixSample buffer voice 0)
           else outputs ! q ! c ! j)"
      unfolding at using Suc.prems(2,5,6)
      by (cases "c = 0") (simp_all add: nth_typedAdd visSample_mixSample)
    have q1: "q < length ?o1" using Suc.prems(4) by simp
    have c1: "c < length (?o1 ! q)" using sh(2) [OF Suc.prems(4)] Suc.prems(5) by simp
    have j1: "j < length (?o1 ! q ! c)" using sh(3) [OF Suc.prems(4,5)] Suc.prems(6) by simp
    note ih = Suc.IH [OF r Suc.prems(2,3) q1 c1 j1]
    show ?thesis
    proof (cases "c = 0")
      case False
      then show ?thesis using ih v by simp
    next
      case True
      note cz = this
      show ?thesis
      proof (cases "j < i")
        case True
        then show ?thesis using ih v by simp
      next
        case False
        note nl = this
        show ?thesis
        proof (cases "j = i")
          case True
          then show ?thesis using ih v cz \<open>isPlaying voice\<close> by (simp add: voiceShare_first)
        next
          case False
          then obtain d where d: "j - i = Suc d" "j - Suc i = d" using nl by (cases "j - i") auto
          then show ?thesis using ih v cz False nl \<open>isPlaying voice\<close> by (simp add: voiceShare_Suc)
        qed
      qed
    qed
  qed
qed

lemma renderVoice_closed:
  assumes "buffer \<noteq> []" "outputs \<noteq> []"
  shows "\<exists>o'. renderVoice buffer n voice outputs = Inr (voiceAfter n buffer voice, o')
     \<and> map (map length) o' = map (map length) outputs
     \<and> (\<forall>ch j. ch < length (outputs ! 0) \<and> j < length (outputs ! 0 ! ch) \<longrightarrow>
           o' ! 0 ! ch ! j = jadd (outputs ! 0 ! ch ! j) (voiceShare n buffer voice ch j))
     \<and> (\<forall>q c j. 0 < q \<and> q < length outputs \<and> c < length (outputs ! q) \<and> j < length (outputs ! q ! c) \<longrightarrow>
           o' ! q ! c ! j
             = (if c = 0 \<and> visSlot voice + 1 = q
                then jadd (outputs ! q ! c ! j) (voiceShare n buffer voice 0 j)
                else outputs ! q ! c ! j))"
proof -
  obtain v' o' where r: "frameLoop n 0 buffer (visOutput voice outputs) voice outputs = Inr (v', o')"
    using frameLoop_Inr [OF assms(1)] by blast
  have v: "v' = voiceAfter n buffer voice" by (rule frameLoop_voice [OF assms(1) r])
  have sh: "map (map length) o' = map (map length) outputs" by (rule shape_frameLoop [OF r])
  have m: "\<forall>ch j. ch < length (outputs ! 0) \<and> j < length (outputs ! 0 ! ch) \<longrightarrow>
           o' ! 0 ! ch ! j = jadd (outputs ! 0 ! ch ! j) (voiceShare n buffer voice ch j)"
    using frameLoop_mix [OF r assms(1,2)] by simp
  have w: "\<forall>q c j. 0 < q \<and> q < length outputs \<and> c < length (outputs ! q) \<and> j < length (outputs ! q ! c) \<longrightarrow>
           o' ! q ! c ! j
             = (if c = 0 \<and> visSlot voice + 1 = q
                then jadd (outputs ! q ! c ! j) (voiceShare n buffer voice 0 j)
                else outputs ! q ! c ! j)"
  proof (intro allI impI)
    fix q c j
    assume a: "0 < q \<and> q < length outputs \<and> c < length (outputs ! q) \<and> j < length (outputs ! q ! c)"
    show "o' ! q ! c ! j
             = (if c = 0 \<and> visSlot voice + 1 = q
                then jadd (outputs ! q ! c ! j) (voiceShare n buffer voice 0 j)
                else outputs ! q ! c ! j)"
    proof (cases "visOutput voice outputs = Some q")
      case True
      then have "visSlot voice + 1 = q" using visOutput_Some by blast
      then show ?thesis
        using frameLoop_vis [of n 0 buffer q voice outputs v' o' c j] r True a assms(1) by simp
    next
      case False
      then have o: "o' ! q = outputs ! q" using frameLoop_other [OF r] a by simp
      have "\<not> (c = 0 \<and> visSlot voice + 1 = q)"
        using False a by (auto simp: visOutput_def Let_def)
      then show ?thesis using o by auto
    qed
  qed
  show ?thesis using r v sh m w by (auto simp: renderVoice_def)
qed

subsection \<open>The sampler loop in closed form\<close>

text \<open>The sampler loop, from the last voice to the first.\<close>

lemma voicesAfter_snoc:
  "voicesAfter buffers n (vs @ [x])
     = voicesAfter buffers n vs
       @ (case buffers (sampleId x) of None \<Rightarrow> []
          | Some buffer \<Rightarrow> (if isPlaying (voiceAfter n buffer x) then [voiceAfter n buffer x] else []))"
  by (simp add: voicesAfter_def)

lemma mixSum_snoc:
  "mixSum buffers n (vs @ [x]) ch j base
     = mixSum buffers n vs ch j (jadd base (blockShare buffers n x ch j))"
  by (simp add: mixSum_def)

lemma visSum_snoc:
  "visSum buffers n (vs @ [x]) q j base
     = visSum buffers n vs q j
         (if visSlot x + 1 = q then jadd base (blockShare buffers n x 0 j) else base)"
  by (simp add: visSum_def)

lemma splice1_take_drop:
  "Suc v \<le> length xs \<Longrightarrow> take v (splice1 v xs) = take v xs \<and> drop v (splice1 v xs) = drop (Suc v) xs
     \<and> v \<le> length (splice1 v xs)"
  by (simp add: splice1_def min_def)

lemma update_take_drop:
  "Suc v \<le> length xs \<Longrightarrow> take v (xs[v := x]) = take v xs \<and> drop v (xs[v := x]) = x # drop (Suc v) xs"
  by (simp add: drop_update_cancel upd_conv_take_nth_drop min_def)

lemma samplerLoop_closed:
  assumes "v \<le> length voices" "outputs \<noteq> []"
    and "\<forall>x \<in> set (take v voices). buffers (sampleId x) \<noteq> Some []"
  shows "\<exists>o'. samplerLoop v buffers n voices outputs
              = Inr (voicesAfter buffers n (take v voices) @ drop v voices, o')
     \<and> map (map length) o' = map (map length) outputs
     \<and> (\<forall>ch j. ch < length (outputs ! 0) \<and> j < length (outputs ! 0 ! ch) \<longrightarrow>
           o' ! 0 ! ch ! j = mixSum buffers n (take v voices) ch j (outputs ! 0 ! ch ! j))
     \<and> (\<forall>q c j. 0 < q \<and> q < length outputs \<and> c < length (outputs ! q) \<and> j < length (outputs ! q ! c) \<longrightarrow>
           o' ! q ! c ! j
             = (if c = 0 then visSum buffers n (take v voices) q j (outputs ! q ! c ! j)
                else outputs ! q ! c ! j))"
  using assms
proof (induction v arbitrary: voices outputs)
  case 0
  then show ?case by (simp add: voicesAfter_def mixSum_def visSum_def)
next
  case (Suc v)
  let ?x = "voices ! v"
  have lt: "v < length voices" using Suc.prems(1) by simp
  have tk: "take (Suc v) voices = take v voices @ [?x]"
    using lt by (simp add: take_Suc_conv_app_nth)
  have safe: "\<forall>x \<in> set (take v voices). buffers (sampleId x) \<noteq> Some []"
    using Suc.prems(3) tk by simp
  have xs: "buffers (sampleId ?x) \<noteq> Some []" using Suc.prems(3) tk by simp
  show ?case
  proof (cases "buffers (sampleId ?x)")
    case None
    note sp = splice1_take_drop [OF Suc.prems(1)]
    have safe': "\<forall>x \<in> set (take v (splice1 v voices)). buffers (sampleId x) \<noteq> Some []"
      using safe sp by simp
    from Suc.IH [of "splice1 v voices" outputs, OF _ Suc.prems(2) safe'] sp
    obtain o' where r: "samplerLoop v buffers n (splice1 v voices) outputs
              = Inr (voicesAfter buffers n (take v voices) @ drop (Suc v) voices, o')"
      and sh: "map (map length) o' = map (map length) outputs"
      and m: "\<forall>ch j. ch < length (outputs ! 0) \<and> j < length (outputs ! 0 ! ch) \<longrightarrow>
           o' ! 0 ! ch ! j = mixSum buffers n (take v voices) ch j (outputs ! 0 ! ch ! j)"
      and w: "\<forall>q c j. 0 < q \<and> q < length outputs \<and> c < length (outputs ! q) \<and> j < length (outputs ! q ! c) \<longrightarrow>
           o' ! q ! c ! j
             = (if c = 0 then visSum buffers n (take v voices) q j (outputs ! q ! c ! j)
                else outputs ! q ! c ! j)"
      by auto
    have "samplerLoop (Suc v) buffers n voices outputs
        = Inr (voicesAfter buffers n (take (Suc v) voices) @ drop (Suc v) voices, o')"
      using r None by (simp add: tk voicesAfter_snoc)
    moreover have "\<forall>ch j. ch < length (outputs ! 0) \<and> j < length (outputs ! 0 ! ch) \<longrightarrow>
           o' ! 0 ! ch ! j = mixSum buffers n (take (Suc v) voices) ch j (outputs ! 0 ! ch ! j)"
      using m None by (simp add: tk mixSum_snoc blockShare_def)
    moreover have "\<forall>q c j. 0 < q \<and> q < length outputs \<and> c < length (outputs ! q) \<and> j < length (outputs ! q ! c) \<longrightarrow>
           o' ! q ! c ! j
             = (if c = 0 then visSum buffers n (take (Suc v) voices) q j (outputs ! q ! c ! j)
                else outputs ! q ! c ! j)"
      using w None by (simp add: tk visSum_snoc blockShare_def)
    ultimately show ?thesis using sh by blast
  next
    case (Some buffer)
    then have bne: "buffer \<noteq> []" using xs by auto
    from renderVoice_closed [OF bne Suc.prems(2), of n ?x]
    obtain o1 where rv: "renderVoice buffer n ?x outputs = Inr (voiceAfter n buffer ?x, o1)"
      and sh1: "map (map length) o1 = map (map length) outputs"
      and m1: "\<forall>ch j. ch < length (outputs ! 0) \<and> j < length (outputs ! 0 ! ch) \<longrightarrow>
           o1 ! 0 ! ch ! j = jadd (outputs ! 0 ! ch ! j) (voiceShare n buffer ?x ch j)"
      and w1: "\<forall>q c j. 0 < q \<and> q < length outputs \<and> c < length (outputs ! q) \<and> j < length (outputs ! q ! c) \<longrightarrow>
           o1 ! q ! c ! j
             = (if c = 0 \<and> visSlot ?x + 1 = q
                then jadd (outputs ! q ! c ! j) (voiceShare n buffer ?x 0 j)
                else outputs ! q ! c ! j)"
      by blast
    note s1 = shape_nth [OF sh1]
    have ne1: "o1 \<noteq> []" using s1(1) Suc.prems(2) by auto
    let ?v2 = "if \<not> isPlaying (voiceAfter n buffer ?x) then splice1 v voices
               else voices[v := voiceAfter n buffer ?x]"
    have t2: "take v ?v2 = take v voices" "v \<le> length ?v2"
      and d2: "drop v ?v2 = (if isPlaying (voiceAfter n buffer ?x) then [voiceAfter n buffer ?x] else [])
                  @ drop (Suc v) voices"
      using splice1_take_drop [OF Suc.prems(1)] update_take_drop [OF Suc.prems(1)] lt by auto
    have safe2: "\<forall>x \<in> set (take v ?v2). buffers (sampleId x) \<noteq> Some []"
      using safe t2(1) by simp
    from Suc.IH [of ?v2 o1, OF t2(2) ne1 safe2]
    obtain o' where r: "samplerLoop v buffers n ?v2 o1
              = Inr (voicesAfter buffers n (take v ?v2) @ drop v ?v2, o')"
      and sh: "map (map length) o' = map (map length) o1"
      and m: "\<forall>ch j. ch < length (o1 ! 0) \<and> j < length (o1 ! 0 ! ch) \<longrightarrow>
           o' ! 0 ! ch ! j = mixSum buffers n (take v ?v2) ch j (o1 ! 0 ! ch ! j)"
      and w: "\<forall>q c j. 0 < q \<and> q < length o1 \<and> c < length (o1 ! q) \<and> j < length (o1 ! q ! c) \<longrightarrow>
           o' ! q ! c ! j
             = (if c = 0 then visSum buffers n (take v ?v2) q j (o1 ! q ! c ! j)
                else o1 ! q ! c ! j)"
      by blast
    have res: "samplerLoop (Suc v) buffers n voices outputs
        = Inr (voicesAfter buffers n (take (Suc v) voices) @ drop (Suc v) voices, o')"
      using r rv Some unfolding t2(1) d2 by (simp add: tk voicesAfter_snoc)
    have zero: "0 < length outputs" using Suc.prems(2) by simp
    have mm: "\<forall>ch j. ch < length (outputs ! 0) \<and> j < length (outputs ! 0 ! ch) \<longrightarrow>
           o' ! 0 ! ch ! j = mixSum buffers n (take (Suc v) voices) ch j (outputs ! 0 ! ch ! j)"
    proof (intro allI impI)
      fix ch j assume a: "ch < length (outputs ! 0) \<and> j < length (outputs ! 0 ! ch)"
      then have "ch < length (o1 ! 0) \<and> j < length (o1 ! 0 ! ch)"
        using s1(2) [OF zero] s1(3) [OF zero, of ch] by simp
      then have "o' ! 0 ! ch ! j = mixSum buffers n (take v voices) ch j (o1 ! 0 ! ch ! j)"
        using m t2(1) by simp
      also have "o1 ! 0 ! ch ! j = jadd (outputs ! 0 ! ch ! j) (voiceShare n buffer ?x ch j)"
        using m1 a by simp
      finally show "o' ! 0 ! ch ! j = mixSum buffers n (take (Suc v) voices) ch j (outputs ! 0 ! ch ! j)"
        using Some by (simp add: tk mixSum_snoc blockShare_def)
    qed
    have ww: "\<forall>q c j. 0 < q \<and> q < length outputs \<and> c < length (outputs ! q) \<and> j < length (outputs ! q ! c) \<longrightarrow>
           o' ! q ! c ! j
             = (if c = 0 then visSum buffers n (take (Suc v) voices) q j (outputs ! q ! c ! j)
                else outputs ! q ! c ! j)"
    proof (intro allI impI)
      fix q c j
      assume a: "0 < q \<and> q < length outputs \<and> c < length (outputs ! q) \<and> j < length (outputs ! q ! c)"
      then have "0 < q \<and> q < length o1 \<and> c < length (o1 ! q) \<and> j < length (o1 ! q ! c)"
        using s1(1) s1(2) [of q] s1(3) [of q c] by simp
      then have "o' ! q ! c ! j
             = (if c = 0 then visSum buffers n (take v voices) q j (o1 ! q ! c ! j)
                else o1 ! q ! c ! j)"
        using w t2(1) by simp
      moreover have "o1 ! q ! c ! j
             = (if c = 0 \<and> visSlot ?x + 1 = q
                then jadd (outputs ! q ! c ! j) (voiceShare n buffer ?x 0 j)
                else outputs ! q ! c ! j)"
        using w1 a by simp
      ultimately show "o' ! q ! c ! j
             = (if c = 0 then visSum buffers n (take (Suc v) voices) q j (outputs ! q ! c ! j)
                else outputs ! q ! c ! j)"
        using Some by (cases "c = 0") (simp_all add: tk visSum_snoc blockShare_def)
    qed
    show ?thesis using res sh sh1 mm ww by auto
  qed
qed

subsection \<open>The block in closed form\<close>

text \<open>The steps before the sampler loop do not read the voices or the samples; the sampler
  loop reads the mix bus only through its own writes.\<close>

lemma process_steps:
  "outputs \<noteq> [] \<Longrightarrow> outputs ! 0 \<noteq> [] \<Longrightarrow>
   process sr outputs s
     = (case beforeSampler sr (length (outputs ! 0 ! 0)) (clearOutputs outputs ! 0) s of
          (evs, s3, mix2) \<Rightarrow>
            (evs,
             case samplerLoop (length (activeVoices s3)) (sampleBuffers s3) (length (outputs ! 0 ! 0))
                    (activeVoices s3) ((clearOutputs outputs)[0 := mix2]) of
               Inl e \<Rightarrow> Inl e
             | Inr (voices, outs4) \<Rightarrow> Inr (s3\<lparr>activeVoices := voices\<rparr>, outs4)))"
  by (simp add: process_def beforeSampler_def Let_def split_beta)

lemma clockFrame_voices:
  "clockFrame (s\<lparr>activeVoices := vs\<rparr>) = ((fst (clockFrame s))\<lparr>activeVoices := vs\<rparr>, snd (clockFrame s))"
  by (simp add: clockFrame_def triggerMetronome_def Let_def split_beta)

lemma clockLoop_voices:
  "clockLoop n (s\<lparr>activeVoices := vs\<rparr>) = ((fst (clockLoop n s))\<lparr>activeVoices := vs\<rparr>, snd (clockLoop n s))"
  by (induction n arbitrary: s) (simp_all add: clockFrame_voices split_beta)

lemma voices_phase_swap:
  "s\<lparr>activeVoices := vs, metronomePhase := p\<rparr> = s\<lparr>metronomePhase := p, activeVoices := vs\<rparr>"
  "s\<lparr>activeVoices := vs, phase := p\<rparr> = s\<lparr>phase := p, activeVoices := vs\<rparr>"
  by (cases s, simp)+

lemma metronomeLoop_voices:
  "metronomeLoop k i (s\<lparr>activeVoices := vs\<rparr>) mix
     = ((fst (metronomeLoop k i s mix))\<lparr>activeVoices := vs\<rparr>, snd (metronomeLoop k i s mix))"
proof (induction k arbitrary: i s mix)
  case 0
  then show ?case by simp
next
  case (Suc k)
  show ?case
  proof (cases "metronomePhase s > 0")
    case False
    then show ?thesis by simp
  next
    case True
    let ?t = "s\<lparr>metronomePhase := metronomePhase s - 15\<rparr>"
    let ?m = "addFrame (\<lambda>ch. Num (sin (metronomePhase s * clickFreq s) * clickAmp s)) i 0 mix"
    have "metronomeLoop (Suc k) i (s\<lparr>activeVoices := vs\<rparr>) mix
        = metronomeLoop k (Suc i) (?t\<lparr>activeVoices := vs\<rparr>) ?m"
      using True by (simp add: Let_def voices_phase_swap)
    also have "\<dots> = ((fst (metronomeLoop k (Suc i) ?t ?m))\<lparr>activeVoices := vs\<rparr>,
                      snd (metronomeLoop k (Suc i) ?t ?m))"
      by (rule Suc.IH)
    also have "metronomeLoop k (Suc i) ?t ?m = metronomeLoop (Suc k) i s mix"
      using True by (simp add: Let_def)
    finally show ?thesis .
  qed
qed

lemma toneLoop_voices:
  "toneLoop sr k i (s\<lparr>activeVoices := vs\<rparr>) mix
     = ((fst (toneLoop sr k i s mix))\<lparr>activeVoices := vs\<rparr>, snd (toneLoop sr k i s mix))"
proof (induction k arbitrary: i s mix)
  case 0
  then show ?case by simp
next
  case (Suc k)
  let ?p = "if phase s + 440.0 / sr > 1 then phase s + 440.0 / sr - 1 else phase s + 440.0 / sr"
  let ?t = "s\<lparr>phase := ?p\<rparr>"
  let ?m = "addFrame (\<lambda>ch. Num (0.5 * sin (2 * pi * phase s))) i 0 mix"
  have "toneLoop sr (Suc k) i (s\<lparr>activeVoices := vs\<rparr>) mix
      = toneLoop sr k (Suc i) (?t\<lparr>activeVoices := vs\<rparr>) ?m"
    by (simp add: Let_def voices_phase_swap)
  also have "\<dots> = ((fst (toneLoop sr k (Suc i) ?t ?m))\<lparr>activeVoices := vs\<rparr>,
                    snd (toneLoop sr k (Suc i) ?t ?m))"
    by (rule Suc.IH)
  also have "toneLoop sr k (Suc i) ?t ?m = toneLoop sr (Suc k) i s mix"
    by (simp add: Let_def)
  finally show ?case .
qed

lemma metronomeLoop_sampler_fields:
  "activeVoices (fst (metronomeLoop k i s mix)) = activeVoices s
   \<and> sampleBuffers (fst (metronomeLoop k i s mix)) = sampleBuffers s
   \<and> isTonePlaying (fst (metronomeLoop k i s mix)) = isTonePlaying s
   \<and> map length (snd (metronomeLoop k i s mix)) = map length mix"
  by (induction k arbitrary: i s mix) (simp_all add: Let_def)

lemma toneLoop_sampler_fields:
  "activeVoices (fst (toneLoop sr k i s mix)) = activeVoices s
   \<and> sampleBuffers (fst (toneLoop sr k i s mix)) = sampleBuffers s
   \<and> map length (snd (toneLoop sr k i s mix)) = map length mix"
  by (induction k arbitrary: i s mix) (simp_all add: Let_def)

lemma beforeSampler_fields:
  "activeVoices (fst (snd (beforeSampler sr n mix0 s))) = activeVoices s
   \<and> sampleBuffers (fst (snd (beforeSampler sr n mix0 s))) = sampleBuffers s
   \<and> map length (snd (snd (beforeSampler sr n mix0 s))) = map length mix0
   \<and> fst (beforeSampler sr n mix0 s) = snd (clockLoop n s)"
  using clockLoop_keeps [of n s] metronomeLoop_sampler_fields toneLoop_sampler_fields
  by (simp add: beforeSampler_def Let_def split_beta)

lemma beforeSampler_quiet:
  "\<not> isMetronomeEnabled s \<Longrightarrow> \<not> isTonePlaying s \<Longrightarrow>
   beforeSampler sr n mix0 s = (snd (clockLoop n s), fst (clockLoop n s), mix0)"
  using clockLoop_keeps [of n s] by (simp add: beforeSampler_def Let_def split_beta)

lemma beforeSampler_voices:
  "beforeSampler sr n mix0 (s\<lparr>activeVoices := vs\<rparr>)
     = (fst (beforeSampler sr n mix0 s),
        (fst (snd (beforeSampler sr n mix0 s)))\<lparr>activeVoices := vs\<rparr>,
        snd (snd (beforeSampler sr n mix0 s)))"
  by (simp add: beforeSampler_def Let_def split_beta clockLoop_voices metronomeLoop_voices
      toneLoop_voices)






lemma samplerLoop_all:
  assumes "outputs \<noteq> []" and "\<forall>x \<in> set voices. buffers (sampleId x) \<noteq> Some []"
  shows "\<exists>o'. samplerLoop (length voices) buffers n voices outputs
              = Inr (voicesAfter buffers n voices, o')
     \<and> map (map length) o' = map (map length) outputs
     \<and> (\<forall>ch j. ch < length (outputs ! 0) \<and> j < length (outputs ! 0 ! ch) \<longrightarrow>
           o' ! 0 ! ch ! j = mixSum buffers n voices ch j (outputs ! 0 ! ch ! j))
     \<and> (\<forall>q c j. 0 < q \<and> q < length outputs \<and> c < length (outputs ! q) \<and> j < length (outputs ! q ! c) \<longrightarrow>
           o' ! q ! c ! j
             = (if c = 0 then visSum buffers n voices q j (outputs ! q ! c ! j)
                else outputs ! q ! c ! j))"
  using samplerLoop_closed [of "length voices" voices outputs buffers n] assms
  by (simp cong: if_cong)

lemma process_closed:
  assumes "outputs \<noteq> []" and "outputs ! 0 \<noteq> []"
    and "\<forall>v \<in> set (activeVoices s). sampleBuffers s (sampleId v) \<noteq> Some []"
  shows "\<exists>s0 outs0 outs'.
        process sr outputs (s\<lparr>activeVoices := []\<rparr>) = (fst (process sr outputs s), Inr (s0, outs0))
      \<and> (\<not> isMetronomeEnabled s \<and> \<not> isTonePlaying s \<longrightarrow> outs0 = clearOutputs outputs)
      \<and> snd (process sr outputs s)
          = Inr (s0\<lparr>activeVoices :=
                     voicesAfter (sampleBuffers s) (length (outputs ! 0 ! 0)) (activeVoices s)\<rparr>,
                 outs')
      \<and> map (map length) outs' = map (map length) outputs
      \<and> (\<forall>ch j. ch < length (outputs ! 0) \<and> j < length (outputs ! 0 ! ch) \<longrightarrow>
            outs' ! 0 ! ch ! j
              = mixSum (sampleBuffers s) (length (outputs ! 0 ! 0)) (activeVoices s) ch j
                  (outs0 ! 0 ! ch ! j))
      \<and> (\<forall>q c j. 0 < q \<and> q < length outputs \<and> c < length (outputs ! q)
              \<and> j < length (outputs ! q ! c) \<longrightarrow>
            outs' ! q ! c ! j
              = (if c = 0
                 then visSum (sampleBuffers s) (length (outputs ! 0 ! 0)) (activeVoices s) q j (Num 0)
                 else Num 0))"
proof -
  let ?n = "length (outputs ! 0 ! 0)"
  let ?co = "clearOutputs outputs"
  obtain evs s3 mix2 where b: "beforeSampler sr ?n (?co ! 0) s = (evs, s3, mix2)"
    by (cases "beforeSampler sr ?n (?co ! 0) s") auto
  note f = beforeSampler_fields [of sr ?n "?co ! 0" s, unfolded b, simplified]
  let ?o3 = "?co[0 := mix2]"
  have sh3: "map (map length) ?o3 = map (map length) outputs"
  proof -
    have "map length mix2 = map length (?co ! 0)" using f by simp
    then have "map (map length) ?o3 = map (map length) ?co" by (rule shape_update)
    also have "\<dots> = map (map length) outputs" by (simp add: clearOutputs_def comp_def)
    finally show ?thesis .
  qed
  note s3n = shape_nth [OF sh3]
  have ne3: "?o3 \<noteq> []" using assms(1) by simp
  from samplerLoop_all [of ?o3 "activeVoices s" "sampleBuffers s" ?n, OF ne3 assms(3)]
  obtain o' where r: "samplerLoop (length (activeVoices s)) (sampleBuffers s) ?n (activeVoices s) ?o3
              = Inr (voicesAfter (sampleBuffers s) ?n (activeVoices s), o')"
    and sh: "map (map length) o' = map (map length) ?o3"
    and m: "\<forall>ch j. ch < length (?o3 ! 0) \<and> j < length (?o3 ! 0 ! ch) \<longrightarrow>
           o' ! 0 ! ch ! j = mixSum (sampleBuffers s) ?n (activeVoices s) ch j (?o3 ! 0 ! ch ! j)"
    and w: "\<forall>q c j. 0 < q \<and> q < length ?o3 \<and> c < length (?o3 ! q) \<and> j < length (?o3 ! q ! c) \<longrightarrow>
           o' ! q ! c ! j
             = (if c = 0 then visSum (sampleBuffers s) ?n (activeVoices s) q j (?o3 ! q ! c ! j)
                else ?o3 ! q ! c ! j)"
    by auto
  have p0: "process sr outputs (s\<lparr>activeVoices := []\<rparr>)
      = (fst (process sr outputs s), Inr (s3\<lparr>activeVoices := []\<rparr>, ?o3))"
    using b by (simp add: process_steps [OF assms(1,2)] beforeSampler_voices)
  have p1: "snd (process sr outputs s)
      = Inr ((s3\<lparr>activeVoices := []\<rparr>)\<lparr>activeVoices := voicesAfter (sampleBuffers s) ?n (activeVoices s)\<rparr>, o')"
    using b r f by (simp add: process_steps [OF assms(1,2)])
  have q: "\<not> isMetronomeEnabled s \<and> \<not> isTonePlaying s \<longrightarrow> ?o3 = ?co"
    using b by (auto simp: beforeSampler_quiet)
  have mm: "\<forall>ch j. ch < length (outputs ! 0) \<and> j < length (outputs ! 0 ! ch) \<longrightarrow>
            o' ! 0 ! ch ! j = mixSum (sampleBuffers s) ?n (activeVoices s) ch j (?o3 ! 0 ! ch ! j)"
  proof (intro allI impI)
    fix ch j assume a: "ch < length (outputs ! 0) \<and> j < length (outputs ! 0 ! ch)"
    have z: "0 < length outputs" using assms(1) by simp
    have "ch < length (?o3 ! 0) \<and> j < length (?o3 ! 0 ! ch)"
      using a s3n(2) [OF z] s3n(3) [OF z, of ch] by simp
    then show "o' ! 0 ! ch ! j = mixSum (sampleBuffers s) ?n (activeVoices s) ch j (?o3 ! 0 ! ch ! j)"
      using m by blast
  qed
  have ww: "\<forall>q c j. 0 < q \<and> q < length outputs \<and> c < length (outputs ! q)
              \<and> j < length (outputs ! q ! c) \<longrightarrow>
            o' ! q ! c ! j
              = (if c = 0 then visSum (sampleBuffers s) ?n (activeVoices s) q j (Num 0) else Num 0)"
  proof (intro allI impI)
    fix q c j
    assume a: "0 < q \<and> q < length outputs \<and> c < length (outputs ! q) \<and> j < length (outputs ! q ! c)"
    then have i: "0 < q \<and> q < length ?o3 \<and> c < length (?o3 ! q) \<and> j < length (?o3 ! q ! c)"
      using s3n(1) s3n(2) [of q] s3n(3) [of q c] by simp
    have "?o3 ! q ! c ! j = ?co ! q ! c ! j" using a by simp
    also have "\<dots> = Num 0" using a by (simp add: clearOutputs_nth)
    finally have z: "?o3 ! q ! c ! j = Num 0" .
    show "o' ! q ! c ! j
              = (if c = 0 then visSum (sampleBuffers s) ?n (activeVoices s) q j (Num 0) else Num 0)"
      using w i z by (metis (full_types))
  qed
  show ?thesis
    using p0 p1 q sh sh3 mm ww by (intro exI [of _ "s3\<lparr>activeVoices := []\<rparr>"] exI [of _ ?o3] exI [of _ o']) simp
qed


subsection \<open>The example blocks\<close>

text \<open>The example blocks, evaluated.\<close>

lemma exampleMidBar_eval:
  "ticksUntilNextClock exampleMidBar = 0.5" "samplesPerBeat exampleMidBar = 24000"
  "nextClickCountdown exampleMidBar = 2.5" "currentBeat exampleMidBar = 0"
  "\<not> isMetronomeEnabled exampleMidBar" "\<not> isTonePlaying exampleMidBar"
  "activeVoices exampleMidBar = []"
  by (simp_all add: exampleMidBar_def constructor_def updateTiming_def)

lemma exampleMidBar_toggled:
  "ticksUntilNextClock (fst (onmessage sr (TOGGLE_METRONOME True) exampleMidBar)) = 0.5"
  "samplesPerBeat (fst (onmessage sr (TOGGLE_METRONOME True) exampleMidBar)) = 24000"
  "nextClickCountdown (fst (onmessage sr (TOGGLE_METRONOME True) exampleMidBar)) = 0"
  "currentBeat (fst (onmessage sr (TOGGLE_METRONOME True) exampleMidBar)) = 0"
  "activeVoices (fst (onmessage sr (TOGGLE_METRONOME True) exampleMidBar)) = []"
  by (simp_all add: exampleMidBar_eval)

lemma pulse_eval:
  "pulsesOf 24000 0.5 3 = [CLOCK_TICK]" "(pulseStep 24000 ^^ 3) 0.5 = 998"
  by (simp_all add: pulsesOf_def pulseStep_def pulseFires_def eval_nat_numeral upt_rec)

lemma clockLoop3:
  "snd (clockLoop 3 s)
     = snd (clockFrame s) @ snd (clockFrame (fst (clockFrame s)))
       @ snd (clockFrame (fst (clockFrame (fst (clockFrame s)))))"
  by (simp add: eval_nat_numeral split_beta)

lemma exampleMidBar_block:
  "snd (clockLoop 3 exampleMidBar) = [CLOCK_TICK, BEAT 0]"
  "snd (clockLoop 3 (fst (onmessage sr (TOGGLE_METRONOME True) exampleMidBar))) = [BEAT 0, CLOCK_TICK]"
  unfolding clockLoop3
  by (simp_all add: clockFrame_posted clockFrame_ticks clockFrame_click clockFrame_beat clockFrame_keeps
      exampleMidBar_eval exampleMidBar_toggled del: onmessage.simps)





subsection \<open>Commands\<close>

text \<open>
  C7. A \<open>PLAY_SAMPLE\<close> for a pad with no loaded sample, with any velocity (given or
  absent), changes nothing: the state is the same (no voice is created, no voice is
  stopped), nothing is posted and no exception is raised; the next render call therefore
  gives what it would have given without the command.
\<close>

theorem play_unloaded_is_noop:
  assumes "sampleBuffers s ident = None"
  shows "onmessage sr (PLAY_SAMPLE ident velocity) s = (s, [], None)
       \<and> process sr outputs (fst (onmessage sr (PLAY_SAMPLE ident velocity) s)) = process sr outputs s"
  using assms by (simp add: triggerVoice_def)

theorem play_unloaded_is_noop_witness:
  "sampleBuffers (constructor 48000) ''pad1'' = None
   \<and> onmessage 48000 (PLAY_SAMPLE ''pad1'' (Some 0.5)) (constructor 48000)
       = (constructor 48000, [], None)
   \<and> process 48000 (hostOutputs 8)
         (fst (onmessage 48000 (PLAY_SAMPLE ''pad1'' (Some 0.5)) (constructor 48000)))
       = process 48000 (hostOutputs 8) (constructor 48000)"
proof -
  have h: "sampleBuffers (constructor 48000) ''pad1'' = None"
    by (simp add: constructor_def updateTiming_def)
  show ?thesis
    using h play_unloaded_is_noop [OF h, of 48000 "Some 0.5" "hostOutputs 8"] by simp
qed

text \<open>
  C8. A trigger on a pad with a loaded sample appends one voice with cursor 0, gain the
  velocity, playing, and the slot \<open>padSlot\<close> of the identifier, after the voices there
  were. The identifier \<open>padN\<close> with \<open>1 \<le> N \<le> 16\<close> has slot \<open>N - 1\<close>; an identifier
  whose number does not parse, or parses outside 1 to 16, has slot 0; the slot is a total
  function of the identifier and never exceeds 15.
\<close>

theorem trigger_creates_voice:
  assumes "sampleBuffers s ident \<noteq> None"
  shows "(\<exists>voices. length voices = length (activeVoices s)
            \<and> activeVoices (fst (onmessage sr (PLAY_SAMPLE ident (Some velocity)) s))
                = voices @ [\<lparr>sampleId = ident, bufferIndex = 0, isPlaying = True,
                              gain = velocity, visSlot = padSlot ident\<rparr>])
       \<and> (1 \<le> N \<and> N \<le> 16 \<longrightarrow> padSlot (padId N) = N - 1)
       \<and> (parseInt (replaceFirst ''pad'' [] ident) = None \<longrightarrow> padSlot ident = 0)
       \<and> (\<forall>n. parseInt (replaceFirst ''pad'' [] ident) = Some n \<and> (n < 1 \<or> 16 < n)
              \<longrightarrow> padSlot ident = 0)
       \<and> padSlot ident \<le> 15"
proof -
  have "\<exists>voices. length voices = length (activeVoices s)
            \<and> activeVoices (fst (onmessage sr (PLAY_SAMPLE ident (Some velocity)) s))
                = voices @ [\<lparr>sampleId = ident, bufferIndex = 0, isPlaying = True,
                              gain = velocity, visSlot = padSlot ident\<rparr>]"
    using assms by (cases "chokeGroups s ident") (auto simp: triggerVoice_def)
  moreover have "1 \<le> N \<and> N \<le> 16 \<longrightarrow> padSlot (padId N) = N - 1"
    by (simp add: padSlot_padId)
  moreover have "parseInt (replaceFirst ''pad'' [] ident) = None \<longrightarrow> padSlot ident = 0"
    by (simp add: padSlot_def)
  moreover have "\<forall>n. parseInt (replaceFirst ''pad'' [] ident) = Some n \<and> (n < 1 \<or> 16 < n)
              \<longrightarrow> padSlot ident = 0"
    by (auto simp: padSlot_def)
  ultimately show ?thesis using padSlot_le by blast
qed

theorem trigger_creates_voice_witness:
  "sampleBuffers (fst (onmessage 48000 (LOAD_SAMPLE ''kick'' [[Num 1, Num 1]]) (constructor 48000)))
     ''kick'' \<noteq> None
   \<and> activeVoices (fst (onmessage 48000 (PLAY_SAMPLE ''kick'' (Some 0.5))
         (fst (onmessage 48000 (LOAD_SAMPLE ''kick'' [[Num 1, Num 1]]) (constructor 48000)))))
       = [\<lparr>sampleId = ''kick'', bufferIndex = 0, isPlaying = True, gain = 0.5, visSlot = 0\<rparr>]
   \<and> (1::nat) \<le> 16 \<and> (16::nat) \<le> 16 \<and> padSlot (padId 16) = 16 - 1
   \<and> parseInt (replaceFirst ''pad'' [] ''kick'') = None \<and> padSlot ''kick'' = 0
   \<and> sampleBuffers (fst (onmessage 48000 (LOAD_SAMPLE ''pad17'' [[Num 1, Num 1]]) (constructor 48000)))
     ''pad17'' \<noteq> None
   \<and> parseInt (replaceFirst ''pad'' [] ''pad17'') = Some 17 \<and> padSlot ''pad17'' = 0"
proof -
  have h: "sampleBuffers
      (fst (onmessage 48000 (LOAD_SAMPLE ''kick'' [[Num 1, Num 1]]) (constructor 48000)))
      ''kick'' \<noteq> None"
    by simp
  have g: "sampleBuffers
      (fst (onmessage 48000 (LOAD_SAMPLE ''pad17'' [[Num 1, Num 1]]) (constructor 48000)))
      ''pad17'' \<noteq> None"
    by simp
  have k: "parseInt (replaceFirst ''pad'' [] ''kick'') = None"
    and l: "parseInt (replaceFirst ''pad'' [] ''pad17'') = Some 17"
    by (simp_all add: slot_eval)
  note t = trigger_creates_voice [OF h, of 48000 "0.5" 16]
  note u = trigger_creates_voice [OF g, of 48000 "0.5" 16]
  have a: "padSlot ''kick'' = 0" using t k by blast
  have b: "padSlot ''pad17'' = 0" using u l by auto
  have c: "padSlot (padId 16) = 16 - 1" using t by simp
  show ?thesis
    using h g k l a b c t by (simp add: constructor_def updateTiming_def)
qed

text \<open>
  C2. A trigger of a loaded pad \<open>B\<close> of choke group \<open>g\<close> sets \<open>isPlaying\<close> to false,
  during the command, on every playing voice whose pad is mapped to \<open>g\<close>; such a voice
  renders nothing from then on (the frame loop of any later block leaves every output as
  it is). Every other voice (its pad in another group or in none) is left as it was,
  with its flag, cursor and gain.
\<close>

theorem trigger_chokes_group:
  assumes "sampleBuffers s B \<noteq> None" and "chokeGroups s B = Some g"
    and "i < length (activeVoices s)"
  shows "activeVoices (fst (onmessage sr (PLAY_SAMPLE B velocity) s)) ! i
           = (if isPlaying (activeVoices s ! i) \<and> chokeGroups s (sampleId (activeVoices s ! i)) = Some g
              then (activeVoices s ! i)\<lparr>isPlaying := False\<rparr> else activeVoices s ! i)
       \<and> (isPlaying (activeVoices s ! i) \<and> chokeGroups s (sampleId (activeVoices s ! i)) = Some g
            \<longrightarrow> renderVoice buffer n
                  (activeVoices (fst (onmessage sr (PLAY_SAMPLE B velocity) s)) ! i) outputs
                = Inr ((activeVoices s ! i)\<lparr>isPlaying := False\<rparr>, outputs))"
  using assms by (simp add: triggerVoice_def nth_append chokeVoice_def renderVoice_stopped)

theorem trigger_chokes_group_witness:
  "sampleBuffers exampleKit ''pad2'' \<noteq> None \<and> chokeGroups exampleKit ''pad2'' = Some 1
   \<and> 0 < length (activeVoices exampleKit) \<and> 1 < length (activeVoices exampleKit)
   \<and> activeVoices exampleKit ! 0
       = \<lparr>sampleId = ''pad1'', bufferIndex = 0, isPlaying = True, gain = 1, visSlot = 0\<rparr>
   \<and> activeVoices (fst (onmessage 48000 (PLAY_SAMPLE ''pad2'' (Some 1)) exampleKit)) ! 0
       = \<lparr>sampleId = ''pad1'', bufferIndex = 0, isPlaying = False, gain = 1, visSlot = 0\<rparr>
   \<and> renderVoice [[Num 1, Num 1, Num 1, Num 1]] 8
         (activeVoices (fst (onmessage 48000 (PLAY_SAMPLE ''pad2'' (Some 1)) exampleKit)) ! 0)
         (hostOutputs 8)
       = Inr (\<lparr>sampleId = ''pad1'', bufferIndex = 0, isPlaying = False, gain = 1, visSlot = 0\<rparr>,
              hostOutputs 8)
   \<and> activeVoices (fst (onmessage 48000 (PLAY_SAMPLE ''pad2'' (Some 1)) exampleKit)) ! 1
       = \<lparr>sampleId = ''pad3'', bufferIndex = 0, isPlaying = True, gain = 1, visSlot = 2\<rparr>"
proof -
  have a: "sampleBuffers exampleKit ''pad2'' \<noteq> None"
    and b: "chokeGroups exampleKit ''pad2'' = Some 1"
    and c: "0 < length (activeVoices exampleKit)"
    and d: "1 < length (activeVoices exampleKit)"
    by (simp_all add: exampleKit_eval)
  show ?thesis
    using a b c d
      trigger_chokes_group [OF a b c, where sr = 48000 and velocity = "Some 1"
        and buffer = "[[Num 1, Num 1, Num 1, Num 1]]" and n = 8 and outputs = "hostOutputs 8"]
      trigger_chokes_group [OF a b d, where sr = 48000 and velocity = "Some 1"]
    by (auto simp: exampleKit_eval simp del: onmessage.simps)
qed

text \<open>
  C9, as the code has it. A trigger of a loaded pad \<open>p\<close> while a voice of \<open>p\<close> is
  playing always appends the new voice, playing. If \<open>p\<close> has no choke group, every voice
  there was is left as it was, so the two voices of \<open>p\<close> coexist. If \<open>p\<close> has a choke
  group, the choke loop compares the group of each voice's pad with the group of \<open>p\<close>
  and so stops the earlier voice of \<open>p\<close> too.
\<close>

theorem same_pad_voices_coexist:
  assumes "sampleBuffers s p \<noteq> None" and "i < length (activeVoices s)"
    and "sampleId (activeVoices s ! i) = p" and "isPlaying (activeVoices s ! i)"
  shows "length (activeVoices (fst (onmessage sr (PLAY_SAMPLE p (Some velocity)) s)))
           = Suc (length (activeVoices s))
       \<and> activeVoices (fst (onmessage sr (PLAY_SAMPLE p (Some velocity)) s)) ! length (activeVoices s)
           = newVoice p velocity
       \<and> (chokeGroups s p = None \<longrightarrow>
            activeVoices (fst (onmessage sr (PLAY_SAMPLE p (Some velocity)) s))
              = activeVoices s @ [newVoice p velocity])
       \<and> (chokeGroups s p \<noteq> None \<longrightarrow>
            activeVoices (fst (onmessage sr (PLAY_SAMPLE p (Some velocity)) s)) ! i
              = (activeVoices s ! i)\<lparr>isPlaying := False\<rparr>)"
  using assms
  by (cases "chokeGroups s p") (auto simp: triggerVoice_def nth_append chokeVoice_def newVoice_def)

theorem same_pad_voices_coexist_witness:
  "sampleBuffers exampleKit ''pad3'' \<noteq> None \<and> 1 < length (activeVoices exampleKit)
   \<and> sampleId (activeVoices exampleKit ! 1) = ''pad3'' \<and> isPlaying (activeVoices exampleKit ! 1)
   \<and> chokeGroups exampleKit ''pad3'' = None
   \<and> activeVoices (fst (onmessage 48000 (PLAY_SAMPLE ''pad3'' (Some 0.5)) exampleKit))
       = activeVoices exampleKit @ [newVoice ''pad3'' 0.5]
   \<and> sampleBuffers exampleKit ''pad1'' \<noteq> None \<and> 0 < length (activeVoices exampleKit)
   \<and> sampleId (activeVoices exampleKit ! 0) = ''pad1'' \<and> isPlaying (activeVoices exampleKit ! 0)
   \<and> chokeGroups exampleKit ''pad1'' \<noteq> None
   \<and> activeVoices (fst (onmessage 48000 (PLAY_SAMPLE ''pad1'' (Some 0.5)) exampleKit)) ! 0
       = (activeVoices exampleKit ! 0)\<lparr>isPlaying := False\<rparr>
   \<and> activeVoices (fst (onmessage 48000 (PLAY_SAMPLE ''pad1'' (Some 0.5)) exampleKit)) ! 2
       = newVoice ''pad1'' 0.5"
proof -
  have a: "sampleBuffers exampleKit ''pad3'' \<noteq> None"
    and b: "1 < length (activeVoices exampleKit)"
    and c: "sampleId (activeVoices exampleKit ! 1) = ''pad3''"
    and d: "isPlaying (activeVoices exampleKit ! 1)"
    and e: "chokeGroups exampleKit ''pad3'' = None"
    and f: "sampleBuffers exampleKit ''pad1'' \<noteq> None"
    and g: "0 < length (activeVoices exampleKit)"
    and h: "sampleId (activeVoices exampleKit ! 0) = ''pad1''"
    and i: "isPlaying (activeVoices exampleKit ! 0)"
    and j: "chokeGroups exampleKit ''pad1'' \<noteq> None"
    and k: "length (activeVoices exampleKit) = 2"
    by (simp_all add: exampleKit_eval)
  show ?thesis
    using a b c d e f g h i j
      same_pad_voices_coexist [OF a b c d, where sr = 48000 and velocity = "0.5"]
      same_pad_voices_coexist [OF f g h i, where sr = 48000 and velocity = "0.5"]
    unfolding k by blast
qed

text \<open>
  The claim C9 as stated fails: with pad 1 in a choke group, the second trigger of pad 1
  stops the voice of the first.
\<close>

theorem same_pad_choked_counterexample:
  "activeVoices exampleSelfChoke =
     [\<lparr>sampleId = ''pad1'', bufferIndex = 0, isPlaying = False, gain = 1, visSlot = 0\<rparr>,
      \<lparr>sampleId = ''pad1'', bufferIndex = 0, isPlaying = True, gain = 1, visSlot = 0\<rparr>]"
  by (simp add: exampleSelfChoke_def applyAll_def constructor_def updateTiming_def triggerVoice_def
      chokeVoice_def slot_eval)

subsection \<open>Tempo and clock\<close>

text \<open>
  C6. \<open>SET_BPM\<close> writes \<open>bpm\<close> and \<open>samplesPerBeat\<close> (\<open>sampleRate * 60 / b\<close> for
  \<open>b \<noteq> 0\<close>) and posts its log line; every other field (both countdowns, the beat
  index, the metronome envelope, the voices) is as before. The countdowns in flight
  therefore run out as they would have: if the beat
  countdown expires in frame \<open>n + 1\<close>, no beat is posted in the first \<open>n\<close> frames after
  the command, the beat with the old index is posted in frame \<open>n + 1\<close>, and only then is
  the countdown reset, to the new interval; likewise for the pulse countdown and the new
  interval divided by 24.
\<close>

theorem set_bpm_keeps_countdowns:
  assumes "n = 0 \<or> real n < nextClickCountdown s" and "nextClickCountdown s \<le> real n + 1"
    and "m = 0 \<or> real m < ticksUntilNextClock s" and "ticksUntilNextClock s \<le> real m + 1"
  shows "fst (onmessage sr (SET_BPM b) s)
           = s\<lparr>bpm := b, samplesPerBeat := samplesPerBeat (fst (onmessage sr (SET_BPM b) s))\<rparr>
       \<and> snd (onmessage sr (SET_BPM b) s) = ([LOG_OUT (BpmSet b)], None)
       \<and> (b \<noteq> 0 \<longrightarrow> samplesPerBeat (fst (onmessage sr (SET_BPM b) s)) = sr * 60 / b)
       \<and> filter isBeat (snd (clockLoop n (fst (onmessage sr (SET_BPM b) s)))) = []
       \<and> filter isBeat (snd (clockLoop (Suc n) (fst (onmessage sr (SET_BPM b) s))))
           = [BEAT (currentBeat s)]
       \<and> nextClickCountdown (fst (clockLoop (Suc n) (fst (onmessage sr (SET_BPM b) s))))
           = samplesPerBeat (fst (onmessage sr (SET_BPM b) s))
       \<and> filter isTick (snd (clockLoop m (fst (onmessage sr (SET_BPM b) s)))) = []
       \<and> filter isTick (snd (clockLoop (Suc m) (fst (onmessage sr (SET_BPM b) s))))
           = [CLOCK_TICK]
       \<and> ticksUntilNextClock (fst (clockLoop (Suc m) (fst (onmessage sr (SET_BPM b) s))))
           = samplesPerBeat (fst (onmessage sr (SET_BPM b) s)) / 24"
proof -
  let ?t = "s\<lparr>bpm := b, samplesPerBeat := sr * 60 / b\<rparr>"
  have t: "fst (onmessage sr (SET_BPM b) s) = ?t"
    by (simp add: set_bpm_state del: onmessage.simps)
  have b: "n = 0 \<or> real n < nextClickCountdown ?t" "nextClickCountdown ?t \<le> real n + 1"
    using assms by simp_all
  have k: "m = 0 \<or> real m < ticksUntilNextClock ?t" "ticksUntilNextClock ?t \<le> real m + 1"
    using assms by simp_all
  have l: "snd (onmessage sr (SET_BPM b) s) = ([LOG_OUT (BpmSet b)], None)"
    by (simp add: set_bpm_state del: onmessage.simps)
  show ?thesis
    unfolding t l using clockLoop_next_beat [OF b] clockLoop_next_tick [OF k]
    by (simp del: clockLoop.simps)
qed

theorem set_bpm_keeps_countdowns_witness:
  "((2::nat) = 0 \<or> real 2 < nextClickCountdown exampleMidBar)
   \<and> nextClickCountdown exampleMidBar \<le> real 2 + 1
   \<and> ((0::nat) = 0 \<or> real 0 < ticksUntilNextClock exampleMidBar)
   \<and> ticksUntilNextClock exampleMidBar \<le> real 0 + 1
   \<and> (60::real) \<noteq> 0
   \<and> onmessage 48000 (SET_BPM 60) exampleMidBar
       = (exampleMidBar\<lparr>bpm := 60, samplesPerBeat := 48000\<rparr>, [LOG_OUT (BpmSet 60)], None)
   \<and> filter isBeat (snd (clockLoop 2 (fst (onmessage 48000 (SET_BPM 60) exampleMidBar)))) = []
   \<and> filter isBeat (snd (clockLoop (Suc 2) (fst (onmessage 48000 (SET_BPM 60) exampleMidBar))))
       = [BEAT 0]
   \<and> nextClickCountdown (fst (clockLoop (Suc 2) (fst (onmessage 48000 (SET_BPM 60) exampleMidBar))))
       = 48000
   \<and> filter isTick (snd (clockLoop 0 (fst (onmessage 48000 (SET_BPM 60) exampleMidBar)))) = []
   \<and> filter isTick (snd (clockLoop (Suc 0) (fst (onmessage 48000 (SET_BPM 60) exampleMidBar))))
       = [CLOCK_TICK]
   \<and> ticksUntilNextClock (fst (clockLoop (Suc 0) (fst (onmessage 48000 (SET_BPM 60) exampleMidBar))))
       = 2000"
proof -
  have a: "(2::nat) = 0 \<or> real 2 < nextClickCountdown exampleMidBar"
    and b: "nextClickCountdown exampleMidBar \<le> real 2 + 1"
    and c: "(0::nat) = 0 \<or> real 0 < ticksUntilNextClock exampleMidBar"
    and d: "ticksUntilNextClock exampleMidBar \<le> real 0 + 1"
    and e: "(60::real) \<noteq> 0"
    by (simp_all add: exampleMidBar_def constructor_def updateTiming_def)
  note t = set_bpm_keeps_countdowns [OF a b c d, of 48000 60]
  from t e have v: "samplesPerBeat (fst (onmessage 48000 (SET_BPM 60) exampleMidBar)) = 48000"
    by simp
  have w: "currentBeat exampleMidBar = 0"
    by (simp add: exampleMidBar_def constructor_def updateTiming_def)
  have o: "onmessage 48000 (SET_BPM 60) exampleMidBar
       = (exampleMidBar\<lparr>bpm := 60, samplesPerBeat := 48000\<rparr>, [LOG_OUT (BpmSet 60)], None)"
    using t unfolding v by (metis prod.collapse)
  show ?thesis
    using a b c d e o t unfolding v w by simp
qed

text \<open>
  C5. A block runs the clock loop once for each frame of channel 0 of the mix bus (a call
  without a mix bus has no frame and returns at once), and posts what the loop posts. In
  every frame the pulse countdown is decremented and, when it is \<open>\<le> 0\<close>,
  \<open>CLOCK_TICK\<close> is posted and the countdown is reset to
  \<open>samplesPerBeat / 24\<close>: frame \<open>i\<close> of the loop does so on the state
  that the first \<open>i\<close> frames leave. So the pulses posted in a block of
  \<open>n\<close> frames are those of the schedule \<open>pulsesOf\<close>, one for each frame
  at which the stepped countdown fires, and a block that returns leaves the countdown
  stepped \<open>n\<close> times and \<open>samplesPerBeat\<close> as it was. The metronome flag
  is not read: \<open>TOGGLE_METRONOME\<close> leaves the pulse countdown and
  \<open>samplesPerBeat\<close> as they are, and the block after the toggle posts the same
  pulses and leaves the same countdown as the block without it.
\<close>

theorem clock_tick_unconditional:
  "ticksUntilNextClock (fst (clockFrame s))
     = (if ticksUntilNextClock s - 1 \<le> 0 then samplesPerBeat s / 24 else ticksUntilNextClock s - 1)
   \<and> filter isTick (snd (clockFrame s))
     = (if ticksUntilNextClock s - 1 \<le> 0 then [CLOCK_TICK] else [])
   \<and> ticksUntilNextClock (fst (onmessage sr (TOGGLE_METRONOME b) s)) = ticksUntilNextClock s
   \<and> samplesPerBeat (fst (onmessage sr (TOGGLE_METRONOME b) s)) = samplesPerBeat s
   \<and> filter isTick (snd (clockLoop n (fst (onmessage sr (TOGGLE_METRONOME b) s))))
     = filter isTick (snd (clockLoop n s))
   \<and> ticksUntilNextClock (fst (clockLoop n (fst (onmessage sr (TOGGLE_METRONOME b) s))))
     = ticksUntilNextClock (fst (clockLoop n s))
   \<and> filter isTick (fst (process sr outputs (fst (onmessage sr (TOGGLE_METRONOME b) s))))
     = filter isTick (fst (process sr outputs s))
   \<and> fst (process sr outputs s)
     = (if outputs = [] \<or> outputs ! 0 = [] then []
        else snd (clockLoop (length (outputs ! 0 ! 0)) s))
   \<and> clockLoop 0 s = (s, [])
   \<and> ticksUntilNextClock (fst (clockLoop (Suc i) s))
     = (if ticksUntilNextClock (fst (clockLoop i s)) - 1 \<le> 0 then samplesPerBeat s / 24
        else ticksUntilNextClock (fst (clockLoop i s)) - 1)
   \<and> filter isTick (snd (clockLoop (Suc i) s))
     = filter isTick (snd (clockLoop i s))
       @ (if ticksUntilNextClock (fst (clockLoop i s)) - 1 \<le> 0 then [CLOCK_TICK] else [])
   \<and> filter isTick (snd (clockLoop n s))
     = pulsesOf (samplesPerBeat s) (ticksUntilNextClock s) n
   \<and> ticksUntilNextClock (fst (clockLoop n s))
     = (pulseStep (samplesPerBeat s) ^^ n) (ticksUntilNextClock s)
   \<and> samplesPerBeat (fst (clockLoop n s)) = samplesPerBeat s
   \<and> filter isTick (fst (process sr outputs s))
     = (if outputs = [] \<or> outputs ! 0 = [] then []
        else pulsesOf (samplesPerBeat s) (ticksUntilNextClock s) (length (outputs ! 0 ! 0)))
   \<and> filter isTick (fst (process sr outputs (fst (onmessage sr (TOGGLE_METRONOME b) s))))
     = (if outputs = [] \<or> outputs ! 0 = [] then []
        else pulsesOf (samplesPerBeat s) (ticksUntilNextClock s) (length (outputs ! 0 ! 0)))
   \<and> (\<forall>s' outs'. snd (process sr outputs s) = Inr (s', outs') \<longrightarrow>
         ticksUntilNextClock s'
           = (if outputs = [] \<or> outputs ! 0 = [] then ticksUntilNextClock s
              else (pulseStep (samplesPerBeat s) ^^ length (outputs ! 0 ! 0)) (ticksUntilNextClock s))
       \<and> samplesPerBeat s' = samplesPerBeat s)
   \<and> (\<forall>s' outs'. snd (process sr outputs (fst (onmessage sr (TOGGLE_METRONOME b) s))) = Inr (s', outs') \<longrightarrow>
         ticksUntilNextClock s'
           = (if outputs = [] \<or> outputs ! 0 = [] then ticksUntilNextClock s
              else (pulseStep (samplesPerBeat s) ^^ length (outputs ! 0 ! 0)) (ticksUntilNextClock s))
       \<and> samplesPerBeat s' = samplesPerBeat s)"
proof -
  let ?t = "fst (onmessage sr (TOGGLE_METRONOME b) s)"
  have k: "ticksUntilNextClock ?t = ticksUntilNextClock s" "samplesPerBeat ?t = samplesPerBeat s"
    by (simp_all add: Let_def)
  have f: "filter isTick (snd (clockFrame s))
     = (if ticksUntilNextClock s - 1 \<le> 0 then [CLOCK_TICK] else [])"
    by (simp add: clockFrame_posted isTick_def)
  have l: "\<And>n. filter isTick (snd (clockLoop n ?t)) = filter isTick (snd (clockLoop n s))
       \<and> ticksUntilNextClock (fst (clockLoop n ?t)) = ticksUntilNextClock (fst (clockLoop n s))"
    using clockLoop_ticks_only [OF k] .
  have p: "filter isTick (fst (process sr outputs ?t)) = filter isTick (fst (process sr outputs s))"
    using l by (simp add: process_posted del: onmessage.simps)
  have z: "clockLoop 0 s = (s, [])"
    by simp
  have kp: "\<And>n. samplesPerBeat (fst (clockLoop n s)) = samplesPerBeat s"
    using clockLoop_keeps by simp
  have st: "ticksUntilNextClock (fst (clockLoop (Suc i) s))
     = (if ticksUntilNextClock (fst (clockLoop i s)) - 1 \<le> 0 then samplesPerBeat s / 24
        else ticksUntilNextClock (fst (clockLoop i s)) - 1)"
    unfolding clockLoop_snoc by (simp add: clockFrame_ticks kp del: clockLoop.simps)
  have sp: "filter isTick (snd (clockLoop (Suc i) s))
     = filter isTick (snd (clockLoop i s))
       @ (if ticksUntilNextClock (fst (clockLoop i s)) - 1 \<le> 0 then [CLOCK_TICK] else [])"
    unfolding clockLoop_snoc by (simp add: clockFrame_posted isTick_def del: clockLoop.simps)
  have cp: "\<And>n u. filter isTick (snd (clockLoop n u)) = pulsesOf (samplesPerBeat u) (ticksUntilNextClock u) n"
    and cs: "\<And>n u. ticksUntilNextClock (fst (clockLoop n u))
       = (pulseStep (samplesPerBeat u) ^^ n) (ticksUntilNextClock u)"
    using clockLoop_pulses by simp_all
  have pp: "\<And>u. filter isTick (fst (process sr outputs u))
     = (if outputs = [] \<or> outputs ! 0 = [] then []
        else pulsesOf (samplesPerBeat u) (ticksUntilNextClock u) (length (outputs ! 0 ! 0)))"
    by (simp add: process_posted cp del: clockLoop.simps)
  have ps: "\<And>u. \<forall>s' outs'. snd (process sr outputs u) = Inr (s', outs') \<longrightarrow>
         ticksUntilNextClock s'
           = (if outputs = [] \<or> outputs ! 0 = [] then ticksUntilNextClock u
              else (pulseStep (samplesPerBeat u) ^^ length (outputs ! 0 ! 0)) (ticksUntilNextClock u))
       \<and> samplesPerBeat s' = samplesPerBeat u"
  proof (intro allI impI)
    fix u s' outs'
    assume r: "snd (process sr outputs u) = Inr (s', outs')"
    show "ticksUntilNextClock s'
           = (if outputs = [] \<or> outputs ! 0 = [] then ticksUntilNextClock u
              else (pulseStep (samplesPerBeat u) ^^ length (outputs ! 0 ! 0)) (ticksUntilNextClock u))
       \<and> samplesPerBeat s' = samplesPerBeat u"
    proof (cases "outputs = [] \<or> outputs ! 0 = []")
      case True
      then show ?thesis using r by (auto simp: process_def)
    next
      case False
      then show ?thesis using process_pulse_state [OF r] by (simp add: cs del: clockLoop.simps)
    qed
  qed
  have c1: "ticksUntilNextClock (fst (clockFrame s))
     = (if ticksUntilNextClock s - 1 \<le> 0 then samplesPerBeat s / 24 else ticksUntilNextClock s - 1)"
    by (rule clockFrame_ticks)
  have c5: "filter isTick (snd (clockLoop n ?t)) = filter isTick (snd (clockLoop n s))"
    and c6: "ticksUntilNextClock (fst (clockLoop n ?t)) = ticksUntilNextClock (fst (clockLoop n s))"
    using l [of n] by simp_all
  have c15: "filter isTick (fst (process sr outputs ?t))
     = (if outputs = [] \<or> outputs ! 0 = [] then []
        else pulsesOf (samplesPerBeat s) (ticksUntilNextClock s) (length (outputs ! 0 ! 0)))"
    unfolding p by (rule pp)
  have c17: "\<forall>s' outs'. snd (process sr outputs ?t) = Inr (s', outs') \<longrightarrow>
         ticksUntilNextClock s'
           = (if outputs = [] \<or> outputs ! 0 = [] then ticksUntilNextClock s
              else (pulseStep (samplesPerBeat s) ^^ length (outputs ! 0 ! 0)) (ticksUntilNextClock s))
       \<and> samplesPerBeat s' = samplesPerBeat s"
    using ps [of ?t] unfolding k .
  show ?thesis
    by (intro conjI) (rule c1 f k c5 c6 p process_posted z st sp cp cs kp pp c15 ps c17)+
qed

theorem clock_tick_unconditional_witness:
  "(\<exists>s' outs'. snd (process 48000 (hostOutputs 3) exampleMidBar) = Inr (s', outs')
       \<and> ticksUntilNextClock s' = 998 \<and> samplesPerBeat s' = 24000)
   \<and> (\<exists>s' outs'. snd (process 48000 (hostOutputs 3)
                        (fst (onmessage 48000 (TOGGLE_METRONOME True) exampleMidBar))) = Inr (s', outs')
       \<and> ticksUntilNextClock s' = 998 \<and> samplesPerBeat s' = 24000)
   \<and> fst (process 48000 (hostOutputs 3) exampleMidBar) = [CLOCK_TICK, BEAT 0]
   \<and> fst (process 48000 (hostOutputs 3) (fst (onmessage 48000 (TOGGLE_METRONOME True) exampleMidBar)))
       = [BEAT 0, CLOCK_TICK]
   \<and> filter isTick (fst (process 48000 (hostOutputs 3) exampleMidBar)) = [CLOCK_TICK]
   \<and> filter isTick (fst (process 48000 (hostOutputs 3)
                           (fst (onmessage 48000 (TOGGLE_METRONOME True) exampleMidBar)))) = [CLOCK_TICK]
   \<and> pulsesOf 24000 0.5 3 = [CLOCK_TICK] \<and> (pulseStep 24000 ^^ 3) 0.5 = 998"
proof -
  let ?t = "fst (onmessage 48000 (TOGGLE_METRONOME True) exampleMidBar)"
  note t = clock_tick_unconditional [where s = exampleMidBar and sr = 48000 and b = True
      and outputs = "hostOutputs 3"]
  have ne: "hostOutputs 3 \<noteq> []" "hostOutputs 3 ! 0 \<noteq> []" "length (hostOutputs 3 ! 0 ! 0) = 3"
    using hostOutputs_shape [of 3] by simp_all
  obtain s1 o1 where a: "snd (process 48000 (hostOutputs 3) exampleMidBar) = Inr (s1, o1)"
    using process_closed [where outputs = "hostOutputs 3" and s = exampleMidBar and sr = 48000] ne by (auto simp: exampleMidBar_eval)
  obtain s2 o2 where b: "snd (process 48000 (hostOutputs 3) ?t) = Inr (s2, o2)"
    using process_closed [where outputs = "hostOutputs 3" and s = ?t and sr = 48000] ne exampleMidBar_toggled(5) [of 48000] by auto
  have a': "ticksUntilNextClock s1 = 998 \<and> samplesPerBeat s1 = 24000"
    using t a ne pulse_eval by (simp add: exampleMidBar_eval del: onmessage.simps clockLoop.simps)
  have b': "ticksUntilNextClock s2 = 998 \<and> samplesPerBeat s2 = 24000"
    using t b ne pulse_eval by (simp add: exampleMidBar_eval del: onmessage.simps clockLoop.simps)
  have e: "fst (process 48000 (hostOutputs 3) exampleMidBar) = [CLOCK_TICK, BEAT 0]"
     "fst (process 48000 (hostOutputs 3) ?t) = [BEAT 0, CLOCK_TICK]"
    using ne exampleMidBar_block(1) exampleMidBar_block(2) [of 48000]
    by (simp_all add: process_posted del: onmessage.simps clockLoop.simps)
  have f: "filter isTick (fst (process 48000 (hostOutputs 3) exampleMidBar)) = [CLOCK_TICK]"
     "filter isTick (fst (process 48000 (hostOutputs 3) ?t)) = [CLOCK_TICK]"
    unfolding e by (simp_all add: isTick_def)
  show ?thesis
    using a a' b b' e f pulse_eval by (simp del: onmessage.simps clockLoop.simps)
qed

text \<open>
  C4. After \<open>SET_BPM b\<close> (\<open>b \<noteq> 0\<close>) the stored \<open>samplesPerBeat\<close> is
  \<open>sampleRate * 60 / b\<close>. At 48000 Hz and 120 bpm it is 24000, pulses are 1000 frames
  apart, and a processor whose beat countdown and beat index are 0 (as the constructor
  leaves them) posts \<open>BEAT 0\<close> first in its first block of at least one frame.
\<close>

theorem tempo_and_first_beat:
  assumes "b \<noteq> 0" and "nextClickCountdown s = 0" and "currentBeat s = 0"
    and "outputs \<noteq> []" and "outputs ! 0 \<noteq> []" and "outputs ! 0 ! 0 \<noteq> []"
  shows "samplesPerBeat (fst (onmessage sr (SET_BPM b) t)) = sr * 60 / b
       \<and> samplesPerBeat (fst (onmessage 48000 (SET_BPM 120) t)) = 24000
       \<and> samplesPerBeat (constructor 48000) = 24000
       \<and> samplesPerBeat (constructor 48000) / 24 = 1000
       \<and> filter isTick (snd (clockLoop 1000 (constructor 48000))) = [CLOCK_TICK]
       \<and> filter isTick (snd (clockLoop 1001 (constructor 48000))) = [CLOCK_TICK, CLOCK_TICK]
       \<and> (\<exists>rest. fst (process sr outputs s) = BEAT 0 # rest)
       \<and> nextClickCountdown (constructor 48000) = 0 \<and> currentBeat (constructor 48000) = 0"
proof -
  have c: "samplesPerBeat (constructor 48000) = 24000" "ticksUntilNextClock (constructor 48000) \<le> 1"
    "nextClickCountdown (constructor 48000) = 0" "currentBeat (constructor 48000) = 0"
    by (simp_all add: constructor_def updateTiming_def)
  obtain k where k: "length (outputs ! 0 ! 0) = Suc k"
    using assms(6) by (cases "outputs ! 0 ! 0") auto
  have "\<exists>rest. snd (clockLoop (Suc k) s) = BEAT (currentBeat s) # rest"
    using assms(2) by (intro clockLoop_first_beat) simp
  then have p: "\<exists>rest. fst (process sr outputs s) = BEAT 0 # rest"
    using assms k by (simp add: process_posted del: clockLoop.simps)
  show ?thesis
    using c p pulse_interval [OF c(1,2)] by (simp add: updateTiming_def Let_def)
qed

theorem tempo_and_first_beat_witness:
  "(120::real) \<noteq> 0
   \<and> nextClickCountdown (constructor 48000) = 0 \<and> currentBeat (constructor 48000) = 0
   \<and> hostOutputs 128 \<noteq> [] \<and> hostOutputs 128 ! 0 \<noteq> [] \<and> hostOutputs 128 ! 0 ! 0 \<noteq> []
   \<and> samplesPerBeat (fst (onmessage 48000 (SET_BPM 120) exampleMidBar)) = 48000 * 60 / 120
   \<and> samplesPerBeat (constructor 48000) = 24000
   \<and> (\<exists>rest. fst (process 48000 (hostOutputs 128) (constructor 48000)) = BEAT 0 # rest)"
proof -
  have a: "(120::real) \<noteq> 0"
    and b: "nextClickCountdown (constructor 48000) = 0"
    and c: "currentBeat (constructor 48000) = 0"
    and d: "hostOutputs 128 \<noteq> []"
    and e: "hostOutputs 128 ! 0 \<noteq> []"
    and f: "hostOutputs 128 ! 0 ! 0 \<noteq> []"
    by (simp_all add: constructor_def updateTiming_def hostOutputs_def)
  show ?thesis
    using a b c d e f tempo_and_first_beat [OF a b c d e f, where sr = 48000 and t = exampleMidBar]
    by blast
qed

subsection \<open>Rendering\<close>

text \<open>
  C3. A mono sample of four frames of 1 loaded on a pad (any identifier), triggered with
  velocity 0.5 on a fresh processor (any sample rate), then one block of 8 frames on the
  host's outputs: both channels of the mix bus are 0.5 in frames 0 to 3 and 0 in frames
  4 to 7, and no voice is left in the active set. For pad 1 all the outputs are given: the
  visualization bus of slot 0 has the same frames as the mix, the other buses are silent.
\<close>

theorem four_frame_sample_in_block_of_eight:
  "(\<exists>s' outs'. snd (process sr (hostOutputs 8) (exampleTrig sr ident)) = Inr (s', outs')
      \<and> outs' ! 0 = [[Num 0.5, Num 0.5, Num 0.5, Num 0.5, Num 0, Num 0, Num 0, Num 0],
                       [Num 0.5, Num 0.5, Num 0.5, Num 0.5, Num 0, Num 0, Num 0, Num 0]]
      \<and> activeVoices s' = [])
   \<and> (\<exists>s'. snd (process sr (hostOutputs 8) (exampleTrig sr ''pad1''))
        = Inr (s',
            [[Num 0.5, Num 0.5, Num 0.5, Num 0.5, Num 0, Num 0, Num 0, Num 0],
             [Num 0.5, Num 0.5, Num 0.5, Num 0.5, Num 0, Num 0, Num 0, Num 0]]
            # [[Num 0.5, Num 0.5, Num 0.5, Num 0.5, Num 0, Num 0, Num 0, Num 0]]
            # replicate 15 [replicate 8 (Num 0)])
      \<and> activeVoices s' = [])"
proof -
  let ?v = "\<lparr>sampleId = ident, bufferIndex = 0, isPlaying = True, gain = 0.5,
             visSlot = padSlot ident\<rparr>"
  let ?b = "[[Num 1, Num 1, Num 1, Num 1]]"
  let ?m = "[[Num 0.5, Num 0.5, Num 0.5, Num 0.5, Num 0, Num 0, Num 0, Num 0],
             [Num 0.5, Num 0.5, Num 0.5, Num 0.5, Num 0, Num 0, Num 0, Num 0]]"
  have "masterOf (renderVoice ?b 8 ?v (clearOutputs (hostOutputs 8)))
      = masterOf (frameLoop 8 0 ?b None ?v [clearOutputs (hostOutputs 8) ! 0])"
    unfolding renderVoice_def by (rule frameLoop_master_indep) (simp_all add: hostOutputs_shape)
  also have "\<dots> = Inr (?v\<lparr>bufferIndex := 4, isPlaying := False\<rparr>, ?m)"
    by (simp add: masterOf_def render_eval)
  finally obtain o' where r: "renderVoice ?b 8 ?v (clearOutputs (hostOutputs 8))
        = Inr (?v\<lparr>bufferIndex := 4, isPlaying := False\<rparr>, o')" and o': "o' ! 0 = ?m"
    by (auto simp: masterOf_def split: sum.splits)
  have "snd (process sr (hostOutputs 8) (exampleTrig sr ident))
      = Inr ((fst (clockLoop 8 (exampleTrig sr ident)))\<lparr>activeVoices := []\<rparr>, o')"
    using r
    by (simp add: process_quiet exampleTrig_any hostOutputs_shape samplerLoop_single
        del: samplerLoop.simps clockLoop.simps)
  then have g: "\<exists>s' outs'. snd (process sr (hostOutputs 8) (exampleTrig sr ident)) = Inr (s', outs')
      \<and> outs' ! 0 = ?m \<and> activeVoices s' = []"
    using o' by simp
  have p: "\<exists>s'. snd (process sr (hostOutputs 8) (exampleTrig sr ''pad1''))
        = Inr (s', ?m # [[Num 0.5, Num 0.5, Num 0.5, Num 0.5, Num 0, Num 0, Num 0, Num 0]]
                 # replicate 15 [replicate 8 (Num 0)])
      \<and> activeVoices s' = []"
    using render8
    by (simp add: process_quiet exampleTrig_eval hostOutputs_shape samplerLoop_single
        del: samplerLoop.simps)
  from g p show ?thesis by blast
qed



text \<open>
  C1, as the code has it. A voice holds the pad identifier, not a buffer. \<open>LOAD_SAMPLE\<close>
  (with at least one channel) changes the stored buffers only, so the voice keeps its
  cursor, gain and flag; the next block looks the buffer up under the voice's pad
  identifier and reads the new one at the voice's cursor: for a single playing voice,
  metronome and tone off, and the cursor inside the new buffer, frame 0 of mix channel
  \<open>ch\<close> is \<open>new[min(ch, channels - 1)][cursor] * gain\<close>.
\<close>

theorem reload_read_at_cursor:
  assumes "new \<noteq> []" and "activeVoices s = [voice]" and "sampleId voice = p" and "isPlaying voice"
    and "\<not> isMetronomeEnabled s" and "\<not> isTonePlaying s"
    and "outputs \<noteq> []" and "ch < length (outputs ! 0)"
    and "outputs ! 0 ! 0 \<noteq> []" and "outputs ! 0 ! ch \<noteq> []"
    and "bufferIndex voice < length (new ! min ch (length new - 1))"
  shows "fst (onmessage sr (LOAD_SAMPLE p new) s) = s\<lparr>sampleBuffers := (sampleBuffers s)(p \<mapsto> new)\<rparr>
       \<and> (\<exists>s' outs'. snd (process sr outputs (fst (onmessage sr (LOAD_SAMPLE p new) s))) = Inr (s', outs')
             \<and> outs' ! 0 ! ch ! 0
                 = jscale (new ! min ch (length new - 1) ! bufferIndex voice) (gain voice))"
proof -
  let ?t = "s\<lparr>sampleBuffers := (sampleBuffers s)(p \<mapsto> new)\<rparr>"
  let ?co = "clearOutputs outputs"
  have t: "fst (onmessage sr (LOAD_SAMPLE p new) s) = ?t"
    using assms(1) by (rule load_sample_state)
  obtain k where k: "length (outputs ! 0 ! 0) = Suc k"
    using assms(9) by (cases "outputs ! 0 ! 0") auto
  obtain v' o' where r: "frameLoop (Suc k) 0 new (visOutput voice ?co) voice ?co = Inr (v', o')"
    using frameLoop_Inr [OF assms(1)] by blast
  have ne: "outputs ! 0 \<noteq> []" using assms(8) by auto
  have co: "?co \<noteq> []" "ch < length (?co ! 0)" "0 < length (?co ! 0 ! ch)" "?co ! 0 ! ch ! 0 = Num 0"
    using assms(7,8,10) by (simp_all add: clearOutputs_nth)
  have "o' ! 0 ! ch ! 0 = jadd (?co ! 0 ! ch ! 0) (mixSample new voice ch)"
    by (rule frameLoop_first_frame [OF r co(1) _ assms(4) co(2,3)]) simp
  then have v: "o' ! 0 ! ch ! 0 = jscale (new ! min ch (length new - 1) ! bufferIndex voice) (gain voice)"
    using co(4) assms(11) by (simp add: mixSample_def typedGet_def)
  have "snd (process sr outputs ?t)
      = Inr ((fst (clockLoop (Suc k) ?t))\<lparr>activeVoices := (if \<not> isPlaying v' then [] else [v'])\<rparr>, o')"
    using assms(2,3,5,6,7) ne k r
    by (simp add: process_quiet samplerLoop_single renderVoice_def
        del: clockLoop.simps frameLoop.simps samplerLoop.simps)
  with v show ?thesis unfolding t by simp
qed

theorem reload_read_at_cursor_witness:
  "[[Num 2, Num 2, Num 2, Num 2]] \<noteq> [] \<and> activeVoices exampleInFlight = [exampleVoice 2]
   \<and> sampleId (exampleVoice 2) = ''pad1'' \<and> isPlaying (exampleVoice 2)
   \<and> \<not> isMetronomeEnabled exampleInFlight \<and> \<not> isTonePlaying exampleInFlight
   \<and> hostOutputs 2 \<noteq> [] \<and> 1 < length (hostOutputs 2 ! 0)
   \<and> hostOutputs 2 ! 0 ! 0 \<noteq> [] \<and> hostOutputs 2 ! 0 ! 1 \<noteq> []
   \<and> bufferIndex (exampleVoice 2)
       < length ([[Num 2, Num 2, Num 2, Num 2]] ! min 1 (length [[Num 2, Num 2, Num 2, Num 2]] - 1))
   \<and> (\<exists>s' outs'. snd (process 48000 (hostOutputs 2)
          (fst (onmessage 48000 (LOAD_SAMPLE ''pad1'' [[Num 2, Num 2, Num 2, Num 2]]) exampleInFlight)))
          = Inr (s', outs')
        \<and> outs' ! 0 ! 1 ! 0 = Num 1)"
proof -
  have a: "[[Num 2, Num 2, Num 2, Num 2]] \<noteq> []"
    and b: "activeVoices exampleInFlight = [exampleVoice 2]"
    and c: "sampleId (exampleVoice 2) = ''pad1''"
    and d: "isPlaying (exampleVoice 2)"
    and e: "\<not> isMetronomeEnabled exampleInFlight"
    and f: "\<not> isTonePlaying exampleInFlight"
    and g: "hostOutputs 2 \<noteq> []"
    and h: "1 < length (hostOutputs 2 ! 0)"
    and i: "hostOutputs 2 ! 0 ! 0 \<noteq> []"
    and j: "hostOutputs 2 ! 0 ! 1 \<noteq> []"
    and k: "bufferIndex (exampleVoice 2)
       < length ([[Num 2, Num 2, Num 2, Num 2]] ! min 1 (length [[Num 2, Num 2, Num 2, Num 2]] - 1))"
    by (simp_all add: exampleInFlight_eval hostOutputs_def eval_nat_numeral)
  have v: "jscale ([[Num 2, Num 2, Num 2, Num 2]] ! min 1 (length [[Num 2, Num 2, Num 2, Num 2]] - 1)
              ! bufferIndex (exampleVoice 2)) (gain (exampleVoice 2)) = Num 1"
    by (simp add: eval_nat_numeral)
  show ?thesis
    using a b c d e f g h i j k reload_read_at_cursor [OF a b c d e f g h i j k, where sr = 48000]
    unfolding v by blast
qed

text \<open>
  The claim C1 as stated fails. After a first block of two frames the voice of the example
  has its cursor at 2. With the old buffer its next block is 0.5 in both frames; after
  \<open>LOAD_SAMPLE\<close> of four frames of 2 it is 1 in both frames, read from the new buffer;
  after \<open>LOAD_SAMPLE\<close> of a single frame the read at cursor 2 is past the end of the
  new buffer and frame 0 of the mix is \<open>NaN\<close>.
\<close>

theorem reload_swaps_buffer_counterexample:
  "snd (process 48000 (hostOutputs 2) (exampleTrig 48000 ''pad1''))
     = Inr (exampleInFlight,
         [[Num 0.5, Num 0.5], [Num 0.5, Num 0.5]] # [[Num 0.5, Num 0.5]]
         # replicate 15 [replicate 2 (Num 0)])
   \<and> blockMaster (process 48000 (hostOutputs 2) exampleInFlight)
     = Some [[Num 0.5, Num 0.5], [Num 0.5, Num 0.5]]
   \<and> blockMaster (process 48000 (hostOutputs 2)
        (fst (onmessage 48000 (LOAD_SAMPLE ''pad1'' [[Num 2, Num 2, Num 2, Num 2]]) exampleInFlight)))
     = Some [[Num 1, Num 1], [Num 1, Num 1]]
   \<and> blockMaster (process 48000 (hostOutputs 2)
        (fst (onmessage 48000 (LOAD_SAMPLE ''pad1'' [[Num 2]]) exampleInFlight)))
     = Some [[NaN, Num 0], [NaN, Num 0]]"
proof -
  have a: "snd (process 48000 (hostOutputs 2) (exampleTrig 48000 ''pad1''))
     = Inr (exampleInFlight,
         [[Num 0.5, Num 0.5], [Num 0.5, Num 0.5]] # [[Num 0.5, Num 0.5]]
         # replicate 15 [replicate 2 (Num 0)])"
    using render2_start
    by (simp add: process_quiet exampleTrig_eval(2-) exampleTrig_voice hostOutputs_shape samplerLoop_single
        exampleInFlight_def del: samplerLoop.simps clockLoop.simps)
  have b: "blockMaster (process 48000 (hostOutputs 2) exampleInFlight)
     = Some [[Num 0.5, Num 0.5], [Num 0.5, Num 0.5]]"
    using render2_old
    by (simp add: blockMaster_def process_quiet exampleInFlight_eval hostOutputs_shape samplerLoop_single
        del: samplerLoop.simps clockLoop.simps)
  have c: "blockMaster (process 48000 (hostOutputs 2)
        (fst (onmessage 48000 (LOAD_SAMPLE ''pad1'' [[Num 2, Num 2, Num 2, Num 2]]) exampleInFlight)))
     = Some [[Num 1, Num 1], [Num 1, Num 1]]"
    using render2_new
    by (simp add: blockMaster_def process_quiet exampleInFlight_eval hostOutputs_shape samplerLoop_single
        del: samplerLoop.simps clockLoop.simps)
  have d: "blockMaster (process 48000 (hostOutputs 2)
        (fst (onmessage 48000 (LOAD_SAMPLE ''pad1'' [[Num 2]]) exampleInFlight)))
     = Some [[NaN, Num 0], [NaN, Num 0]]"
    using render2_short
    by (simp add: blockMaster_def process_quiet exampleInFlight_eval hostOutputs_shape samplerLoop_single
        del: samplerLoop.simps clockLoop.simps)
  from a b c d show ?thesis by blast
qed

end
